theory Spec2Isabelle
  imports Complex_Main "HOL-Library.AList" "HOL-Library.Extended_Nat"
begin

section \<open>JavaScript strings and truthiness\<close>

text \<open>
  Strings are character lists; a character stands for one code unit. The methods
  \<open>String.prototype.trim\<close> and \<open>String.prototype.toLowerCase\<close> belong to the language,
  not to the repository. Every operation that calls them takes them from a record of
  library functions, so that what is proved holds for the functions of the runtime.
\<close>

record string_lib =
  trim :: "string \<Rightarrow> string"
  toLowerCase :: "string \<Rightarrow> string"

text \<open>
  A concrete library for evaluating the operations on sample inputs. On code units
  below 256 it does what JavaScript does: the white space is tab, line feed, vertical
  tab, form feed, carriage return, space and no-break space, and the letters with a
  lower-case form are \<open>A..Z\<close> and the capital letters of Latin-1.
\<close>

definition upper_letters :: string where
  "upper_letters =
     ''ABCDEFGHIJKLMNOPQRSTUVWXYZ'' @
     [CHR 0xC0, CHR 0xC1, CHR 0xC2,
      CHR 0xC3, CHR 0xC4, CHR 0xC5, CHR 0xC6, CHR 0xC7, CHR 0xC8,
      CHR 0xC9, CHR 0xCA, CHR 0xCB, CHR 0xCC, CHR 0xCD, CHR 0xCE,
      CHR 0xCF, CHR 0xD0, CHR 0xD1, CHR 0xD2, CHR 0xD3, CHR 0xD4,
      CHR 0xD5, CHR 0xD6, CHR 0xD8, CHR 0xD9, CHR 0xDA, CHR 0xDB,
      CHR 0xDC, CHR 0xDD, CHR 0xDE]"

definition lower_letters :: string where
  "lower_letters =
     ''abcdefghijklmnopqrstuvwxyz'' @
     [CHR 0xE0, CHR 0xE1, CHR 0xE2,
      CHR 0xE3, CHR 0xE4, CHR 0xE5, CHR 0xE6, CHR 0xE7, CHR 0xE8,
      CHR 0xE9, CHR 0xEA, CHR 0xEB, CHR 0xEC, CHR 0xED, CHR 0xEE,
      CHR 0xEF, CHR 0xF0, CHR 0xF1, CHR 0xF2, CHR 0xF3, CHR 0xF4,
      CHR 0xF5, CHR 0xF6, CHR 0xF8, CHR 0xF9, CHR 0xFA, CHR 0xFB,
      CHR 0xFC, CHR 0xFD, CHR 0xFE]"

definition lower_char :: "char \<Rightarrow> char" where
  "lower_char c =
     (case map_of (zip upper_letters lower_letters) c of
        Some d \<Rightarrow> d
      | None \<Rightarrow> c)"

definition is_space :: "char \<Rightarrow> bool" where
  "is_space c =
     (c \<in> set [CHR '' '', CHR 0x09, CHR 0x0A, CHR 0x0B, CHR 0x0C, CHR 0x0D, CHR 0xA0])"

definition sample_strings :: string_lib where
  "sample_strings =
     \<lparr> trim = (\<lambda>s. rev (dropWhile is_space (rev (dropWhile is_space s)))),
       toLowerCase = map lower_char \<rparr>"

text \<open>
  A value that may be \<open>undefined\<close>/\<open>null\<close> is an option. JavaScript's \<open>a || b\<close> on such
  strings skips \<open>undefined\<close> and the empty string alike.
\<close>

definition truthy :: "string option \<Rightarrow> bool" where
  "truthy v = (case v of None \<Rightarrow> False | Some s \<Rightarrow> s \<noteq> [])"

definition js_or :: "string option \<Rightarrow> string option \<Rightarrow> string option" where
  "js_or a b = (if truthy a then a else b)"

section \<open>Room state\<close>

record player =
  player_name :: string
  player_x :: int
  player_y :: int
  anim :: string
  readyToConnect :: bool
  videoConnected :: bool

text \<open>
  Modelled from the spec: the \<open>Player\<close> schema class lives in \<open>schema/OfficeState\<close>; the
  spec lists its fields (x, y, anim, name, readyToConnect, videoConnected) and not its
  defaults. The fields \<open>x\<close>, \<open>y\<close> and \<open>name\<close> are prefixed here. The defaults below are
  placeholders, but for one: a new player is not ready to connect (the room sets the flag
  when the client sends \<open>READY_TO_CONNECT\<close>).
\<close>

definition new_Player :: player where
  "new_Player = \<lparr> player_name = [], player_x = 0, player_y = 0, anim = ''adam_idle_down'',
                  readyToConnect = False, videoConnected = False \<rparr>"

record computer =
  connectedUser :: "string set"

record npc_payload =
  agentId :: string
  registryAgentId :: "string option"
  name :: string
  avatarId :: string
  workstationId :: string
  position :: "(int \<times> int) option"
  role :: "string option"
  officeId :: "string option"
  computerId :: "string option"
  voiceAgentId :: "string option"
  namespaceSlug :: "string option"
  agentMetadata :: "string option"

record npc_assignment = npc_payload +
  roomId :: string
  assignedAt :: string

record upsert_options =
  skipPersistence :: bool
  skipRegistrySync :: bool

record persisted_npc =
  db_agentId :: string
  db_registryAgentId :: "string option"
  db_officeId :: "string option"
  db_name :: string
  db_avatarId :: string
  db_workstationId :: string
  db_positionX :: int
  db_positionY :: int
  db_role :: "string option"
  db_computerId :: "string option"
  db_roomName :: "string option"
  db_voiceAgentId :: "string option"
  db_namespaceSlug :: "string option"
  db_agentMetadata :: "string option"

text \<open>The \<open>npcs\<close> table: rows keyed by \<open>agentId\<close>, insert-or-replace and delete-by-key.\<close>

type_synonym npc_store = "persisted_npc list"

definition saveNpc :: "persisted_npc \<Rightarrow> npc_store \<Rightarrow> npc_store" where
  "saveNpc npc db =
     (if db_agentId npc = [] then db
      else filter (\<lambda>r. db_agentId r \<noteq> db_agentId npc) db @ [npc])"

definition removeNpcPersist :: "string \<Rightarrow> npc_store \<Rightarrow> npc_store" where
  "removeNpcPersist a db =
     (if a = [] then db else filter (\<lambda>r. db_agentId r \<noteq> a) db)"

record room =
  room_roomId :: string
  room_name :: string
  room_namespaceSlug :: "string option"
  room_password :: "string option"
  players :: "string \<rightharpoonup> player"
  computers :: "string \<rightharpoonup> computer"
  whiteboards :: "string \<rightharpoonup> computer"
  npcAssignments :: "(string \<times> npc_assignment) list"

text \<open>
  The shared table \<open>resolveComputerIdFromWorkstation\<close> (module \<open>shared/workstationSeats\<close>)
  is a parameter of the operations that use it.
\<close>

type_synonym seats = "string \<Rightarrow> string option"

definition normaliseNpcRole :: "string_lib \<Rightarrow> string option \<Rightarrow> string" where
  "normaliseNpcRole lib r =
     (case r of
        None \<Rightarrow> ''GM''
      | Some s \<Rightarrow>
          if s = [] then ''GM''
          else if trim lib s = [] then ''GM''
          else if toLowerCase lib (trim lib s) = ''office secretary'' then ''GM''
          else trim lib s)"

definition getNpcKey :: "string \<Rightarrow> string" where
  "getNpcKey a = ''npc-'' @ a"

definition avatarAnimMap :: "string \<rightharpoonup> string" where
  "avatarAnimMap =
     [''adam'' \<mapsto> ''adam_idle_down'', ''ash'' \<mapsto> ''ash_idle_down'',
      ''lucy'' \<mapsto> ''lucy_idle_down'', ''nancy'' \<mapsto> ''nancy_idle_down'']"

definition getIdleAnim :: "string \<Rightarrow> string" where
  "getIdleAnim a = (case avatarAnimMap a of Some v \<Rightarrow> v | None \<Rightarrow> ''adam_idle_down'')"

definition getSittingAnim :: "string \<Rightarrow> string" where
  "getSittingAnim a = a @ ''_sit_down''"

text \<open>Removing a session key from every computer (the \<open>forEach\<close> over \<open>computers\<close>).\<close>

definition release_computers :: "string \<Rightarrow> (string \<rightharpoonup> computer) \<Rightarrow> (string \<rightharpoonup> computer)" where
  "release_computers k cs =
     (\<lambda>c. map_option (\<lambda>comp. comp\<lparr>connectedUser := connectedUser comp - {k}\<rparr>) (cs c))"

definition assignNpcToWorkstation ::
  "seats \<Rightarrow> string \<Rightarrow> 'a npc_payload_scheme \<Rightarrow> (string \<rightharpoonup> computer)
     \<Rightarrow> string option \<times> (string \<rightharpoonup> computer)" where
  "assignNpcToWorkstation seat playerKey payload cs =
     (if workstationId payload = [] then (None, cs)
      else
        (case js_or (computerId payload) (seat (workstationId payload)) of
           None \<Rightarrow> (None, cs)
         | Some cid \<Rightarrow>
             if cid = [] then (None, cs)
             else
               (let cs' = release_computers playerKey cs in
                case cs' cid of
                  None \<Rightarrow> (None, cs')
                | Some target \<Rightarrow>
                    (Some cid,
                     cs'(cid \<mapsto> target\<lparr>connectedUser := insert playerKey (connectedUser target)\<rparr>)))))"

text \<open>
  \<open>upsertNpc\<close> and \<open>removeNpc\<close> on the room state and the \<open>npcs\<close> table. The patch sent to
  the Registry (which also rewrites the opaque \<open>agentMetadata\<close> of the assignment) and
  the online counts pushed to the matchmaker lie outside this state and are left out.
\<close>

definition upsertNpc ::
  "string_lib \<Rightarrow> seats \<Rightarrow> string \<Rightarrow> npc_payload \<Rightarrow> upsert_options \<Rightarrow> room \<times> npc_store
     \<Rightarrow> npc_assignment \<times> room \<times> npc_store" where
  "upsertNpc lib seat now payload opts st =
     (let rm = fst st; db = snd st;
          key = getNpcKey (agentId payload);
          p0 = (case players rm key of Some p \<Rightarrow> p | None \<Rightarrow> new_Player);
          p1 = p0\<lparr> player_name := name payload,
                   player_x := (case position payload of Some q \<Rightarrow> fst q | None \<Rightarrow> player_x p0),
                   player_y := (case position payload of Some q \<Rightarrow> snd q | None \<Rightarrow> player_y p0),
                   readyToConnect := True,
                   videoConnected := False \<rparr>;
          asg = assignNpcToWorkstation seat key payload (computers rm);
          assignedComputerId = fst asg;
          seated = js_or assignedComputerId (computerId payload);
          p2 = p1\<lparr> anim := (if truthy seated then getSittingAnim (avatarId payload)
                              else getIdleAnim (avatarId payload)) \<rparr>;
          assignment = npc_payload.extend
             (payload\<lparr> namespaceSlug :=
                 js_or (namespaceSlug payload)
                   (js_or (room_namespaceSlug rm) (Some (room_name rm))),
                 role := Some (normaliseNpcRole lib (role payload)),
                 computerId := seated \<rparr>)
             \<lparr> roomId = room_roomId rm, assignedAt = now \<rparr>;
          rm' = rm\<lparr> players := (players rm)(key \<mapsto> p2),
                     computers := snd asg,
                     npcAssignments := AList.update (agentId payload) assignment (npcAssignments rm) \<rparr>;
          db' = (if skipPersistence opts then db
                 else saveNpc
                   \<lparr> db_agentId = agentId assignment,
                     db_registryAgentId = js_or (registryAgentId assignment) None,
                     db_officeId = js_or (officeId assignment) None,
                     db_name = name assignment,
                     db_avatarId = avatarId assignment,
                     db_workstationId = workstationId assignment,
                     db_positionX = (case position assignment of Some q \<Rightarrow> fst q | None \<Rightarrow> player_x p2),
                     db_positionY = (case position assignment of Some q \<Rightarrow> snd q | None \<Rightarrow> player_y p2),
                     db_role = role assignment,
                     db_computerId = js_or (computerId assignment) None,
                     db_roomName = Some (room_name rm),
                     db_voiceAgentId = js_or (voiceAgentId assignment) None,
                     db_namespaceSlug = js_or (namespaceSlug assignment) None,
                     db_agentMetadata = js_or (agentMetadata assignment) None \<rparr> db)
      in (assignment, rm', db'))"

definition removeNpc :: "string \<Rightarrow> room \<times> npc_store \<Rightarrow> bool \<times> room \<times> npc_store" where
  "removeNpc a st =
     (let rm = fst st; db = snd st;
          key = getNpcKey a;
          existed = (map_of (npcAssignments rm) a \<noteq> None);
          rm' = rm\<lparr> npcAssignments := AList.delete a (npcAssignments rm),
                     players := (players rm)(key := None),
                     computers := release_computers key (computers rm) \<rparr>
      in (existed, rm', removeNpcPersist a db))"

text \<open>
  \<open>onCreate\<close>: the namespace is the trimmed, lowercased slug (or the room name when no slug
  is given), and the room starts with five computers, three whiteboards, no players and no
  assignments. The room receives its password as a hash; hashing a plain password with
  bcrypt is not modelled.
\<close>

definition seed :: "string list \<Rightarrow> (string \<rightharpoonup> computer)" where
  "seed ks = map_of (map (\<lambda>k. (k, \<lparr> connectedUser = {} \<rparr>)) ks)"

definition onCreate ::
  "string_lib \<Rightarrow> string \<Rightarrow> string \<Rightarrow> string option \<Rightarrow> string option \<Rightarrow> room" where
  "onCreate lib rid nm slug passwordHash =
     (let resolvedNamespace = (case slug of
            Some s \<Rightarrow> if trim lib s \<noteq> [] then trim lib s else nm
          | None \<Rightarrow> nm)
      in \<lparr> room_roomId = rid,
           room_name = nm,
           room_namespaceSlug = Some (toLowerCase lib (trim lib resolvedNamespace)),
           room_password = (if truthy passwordHash then passwordHash else None),
           players = Map.empty,
           computers = seed [''0'', ''1'', ''2'', ''3'', ''4''],
           whiteboards = seed [''0'', ''1'', ''2''],
           npcAssignments = [] \<rparr>)"

text \<open>Sequences of NPC operations on one room.\<close>

text \<open>An upsert carries the clock reading used for \<open>assignedAt\<close>.\<close>

datatype npc_op = Upsert string npc_payload upsert_options | Remove string

fun apply_op :: "string_lib \<Rightarrow> seats \<Rightarrow> npc_op \<Rightarrow> room \<times> npc_store \<Rightarrow> room \<times> npc_store" where
  "apply_op lib seat (Upsert now p opts) st = snd (upsertNpc lib seat now p opts st)"
| "apply_op lib seat (Remove a) st = snd (removeNpc a st)"

fun run_ops :: "string_lib \<Rightarrow> seats \<Rightarrow> npc_op list \<Rightarrow> room \<times> npc_store \<Rightarrow> room \<times> npc_store" where
  "run_ops lib seat [] st = st"
| "run_ops lib seat (opn # ops) st = run_ops lib seat ops (apply_op lib seat opn st)"

text \<open>The room directory \<open>activeRooms\<close>, in insertion order.\<close>

type_synonym directory = "(string \<times> room) list"

definition getNpcAssignments :: "room \<Rightarrow> npc_assignment list" where
  "getNpcAssignments rm = map snd (npcAssignments rm)"

definition findRoomWithAgent :: "directory \<Rightarrow> string \<Rightarrow> room option" where
  "findRoomWithAgent dir a =
     find (\<lambda>rm. list_ex (\<lambda>asg. agentId asg = a) (getNpcAssignments rm)) (map snd dir)"

text \<open>The computers whose \<open>connectedUser\<close> set holds a session key.\<close>

definition occupied :: "(string \<rightharpoonup> computer) \<Rightarrow> string \<Rightarrow> string set" where
  "occupied cs k = {c. case cs c of Some m \<Rightarrow> k \<in> connectedUser m | None \<Rightarrow> False}"

text \<open>A sample seat table, used to evaluate the operations on concrete inputs.\<close>

definition sample_seats :: seats where
  "sample_seats w = (if w = ''design-studio'' then Some ''1'' else None)"

definition sample_payload :: "string \<Rightarrow> string option \<Rightarrow> npc_payload" where
  "sample_payload a cid =
     \<lparr> agentId = a, registryAgentId = None, name = ''Ada'', avatarId = ''adam'',
       workstationId = ''design-studio'', position = Some (800, 200), role = None,
       officeId = None, computerId = cid, voiceAgentId = None, namespaceSlug = None,
       agentMetadata = None \<rparr>"

definition persist_all :: upsert_options where
  "persist_all = \<lparr> skipPersistence = False, skipRegistrySync = False \<rparr>"

text \<open>The NPC players of a room are exactly its assignments.\<close>

definition npc_players_agree :: "room \<Rightarrow> bool" where
  "npc_players_agree rm =
     (\<forall>K. (getNpcKey K \<in> dom (players rm)) = (K \<in> dom (map_of (npcAssignments rm))))"

text \<open>No session key is seated at two computers.\<close>

definition single_seat :: "(string \<rightharpoonup> computer) \<Rightarrow> bool" where
  "single_seat cs = (\<forall>k c1 c2. c1 \<in> occupied cs k \<longrightarrow> c2 \<in> occupied cs k \<longrightarrow> c1 = c2)"

section \<open>Manager tokens\<close>

text \<open>
  Byte strings are character lists (a \<open>char\<close> is one byte). Node's \<open>crypto\<close>, \<open>Buffer\<close>
  and \<open>JSON\<close> are libraries outside the repository; the verifier takes them as a record
  of functions. \<open>JSON_parse\<close> returns \<open>None\<close> where \<open>JSON.parse\<close> throws; a parsed
  value is taken to be an object with the fields of \<open>ManagerTokenPayload\<close>.
\<close>

type_synonym bytes = "char list"

record token_payload =
  tok_agentId :: "string option"
  tok_namespace :: "string option"
  tok_namespaceSlug :: "string option"
  tok_officeId :: "string option"
  tok_exp :: "rat option"
  tok_iat :: "rat option"
  tok_jti :: "string option"
  tok_extras :: "(string \<times> string) list"

record crypto =
  createHmac_sha256 :: "string \<Rightarrow> string \<Rightarrow> bytes"
  Buffer_from_base64 :: "string \<Rightarrow> bytes"
  toString_utf8 :: "bytes \<Rightarrow> string"
  JSON_parse :: "string \<Rightarrow> token_payload option"

datatype token_error =
    TokenRequired | SecretNotConfigured | InvalidTokenFormat | InvalidSignature
  | InvalidSegment | JsonSyntaxError | TokenExpired

fun error_message :: "token_error \<Rightarrow> string" where
  "error_message TokenRequired = ''Token is required''"
| "error_message SecretNotConfigured = ''Manager token secret not configured''"
| "error_message InvalidTokenFormat = ''Invalid token format''"
| "error_message InvalidSignature = ''Invalid token signature''"
| "error_message InvalidSegment = ''Invalid base64url segment''"
| "error_message JsonSyntaxError = ''Unexpected token in JSON''"
| "error_message TokenExpired = ''Token expired''"

text \<open>\<open>String.prototype.split\<close> on a one-character separator.\<close>

fun split_on :: "char \<Rightarrow> string \<Rightarrow> string list" where
  "split_on c [] = [[]]"
| "split_on c (a # s) =
     (if a = c then [] # split_on c s
      else (case split_on c s of w # ws \<Rightarrow> (a # w) # ws | [] \<Rightarrow> [[a]]))"

definition base64url_char :: "char \<Rightarrow> bool" where
  "base64url_char c =
     (c \<in> set ''ABCDEFGHIJKLMNOPQRSTUVWXYZabcdefghijklmnopqrstuvwxyz0123456789-_'')"

text \<open>The pattern \<open>/^[A-Za-z0-9\-_]+$/\<close>.\<close>

definition BASE64_URL_REGEXP :: "string \<Rightarrow> bool" where
  "BASE64_URL_REGEXP s = (s \<noteq> [] \<and> list_all base64url_char s)"

definition normalizeBase64Url :: "string \<Rightarrow> string" where
  "normalizeBase64Url v =
     (let normalized = map (\<lambda>c. if c = CHR ''-'' then CHR ''+''
                                 else if c = CHR ''_'' then CHR ''/'' else c) v;
          pad = length normalized mod 4
      in if pad \<noteq> 0 then normalized @ replicate (4 - pad) (CHR ''='') else normalized)"

definition decodeBase64UrlSegment :: "crypto \<Rightarrow> string \<Rightarrow> token_error + string" where
  "decodeBase64UrlSegment lib segment =
     (if \<not> BASE64_URL_REGEXP segment then Inl InvalidSegment
      else Inr (toString_utf8 lib (Buffer_from_base64 lib (normalizeBase64Url segment))))"

text \<open>
  \<open>payload.exp && Date.now() / 1000 > payload.exp\<close>: the number \<open>0\<close> is falsy. The clock
  is read in milliseconds.
\<close>

definition expired :: "int \<Rightarrow> token_payload \<Rightarrow> bool" where
  "expired now_ms payload =
     (case tok_exp payload of
        None \<Rightarrow> False
      | Some e \<Rightarrow> e \<noteq> 0 \<and> of_int now_ms / 1000 > e)"

definition verifyManagerToken ::
  "crypto \<Rightarrow> int \<Rightarrow> string \<Rightarrow> string \<Rightarrow> token_error + token_payload" where
  "verifyManagerToken lib now_ms token secret =
     (if token = [] then Inl TokenRequired
      else if secret = [] then Inl SecretNotConfigured
      else
        (case split_on (CHR ''.'') token of
           [encodedHeader, encodedBody, signature] \<Rightarrow>
             (let signingInput = encodedHeader @ ''.'' @ encodedBody;
                  expectedBuffer = createHmac_sha256 lib secret signingInput;
                  actualBuffer = Buffer_from_base64 lib (normalizeBase64Url signature)
              in if length expectedBuffer \<noteq> length actualBuffer then Inl InvalidSignature
                 else if expectedBuffer \<noteq> actualBuffer then Inl InvalidSignature
                 else
                   (case decodeBase64UrlSegment lib encodedBody of
                      Inl e \<Rightarrow> Inl e
                    | Inr payloadJson \<Rightarrow>
                        (case JSON_parse lib payloadJson of
                           None \<Rightarrow> Inl JsonSyntaxError
                         | Some payload \<Rightarrow>
                             if expired now_ms payload then Inl TokenExpired
                             else Inr payload)))
         | _ \<Rightarrow> Inl InvalidTokenFormat))"

text \<open>
  The token format \<open>h.b.s\<close>. A token is signed with \<open>secret\<close> when its three segments hold
  no dot and its signature segment decodes to \<open>HMAC-SHA256(secret, h + "." + b)\<close>; it
  carries a payload when its body segment is base64url text that decodes to the JSON of
  the payload.
\<close>

definition token_of :: "string \<Rightarrow> string \<Rightarrow> string \<Rightarrow> string" where
  "token_of h b s = h @ ''.'' @ b @ ''.'' @ s"

definition dot_free :: "string \<Rightarrow> bool" where
  "dot_free s = (CHR ''.'' \<notin> set s)"

definition signed_with :: "crypto \<Rightarrow> string \<Rightarrow> string \<Rightarrow> string \<Rightarrow> string \<Rightarrow> bool" where
  "signed_with lib secret h b s =
     (dot_free h \<and> dot_free b \<and> dot_free s
      \<and> Buffer_from_base64 lib (normalizeBase64Url s) = createHmac_sha256 lib secret (h @ ''.'' @ b))"

definition carries :: "crypto \<Rightarrow> string \<Rightarrow> token_payload \<Rightarrow> bool" where
  "carries lib b payload =
     (BASE64_URL_REGEXP b
      \<and> JSON_parse lib (toString_utf8 lib (Buffer_from_base64 lib (normalizeBase64Url b)))
          = Some payload)"

text \<open>
  HMAC-SHA256 and SHA-256 are taken as given. Where a statement needs that a digest tells
  two inputs apart, it says so: \<open>f\<close> does not collide on \<open>x\<close> and \<open>y\<close>.
\<close>

definition collision_free :: "('a \<Rightarrow> 'b) \<Rightarrow> 'a \<Rightarrow> 'a \<Rightarrow> bool" where
  "collision_free f x y = (x \<noteq> y \<longrightarrow> f x \<noteq> f y)"

text \<open>
  A stand-in library for evaluating the verifier on concrete tokens. Like HMAC, whose key
  is padded with zero bytes to the block size, the digest does not see zero bytes at the
  end of the key; it is four bytes drawn from the key and the signing input. Like Node's
  base64 decoder, decoding ignores the padding character. The parser knows four payload
  texts.
\<close>

definition plain_payload :: token_payload where
  "plain_payload =
     \<lparr> tok_agentId = None, tok_namespace = None, tok_namespaceSlug = None,
       tok_officeId = None, tok_exp = None, tok_iat = None, tok_jti = None,
       tok_extras = [] \<rparr>"

definition zero_padded :: "string \<Rightarrow> string" where
  "zero_padded k = rev (dropWhile (\<lambda>c. c = CHR 0x00) (rev k))"

definition sample_crypto :: crypto where
  "sample_crypto =
     \<lparr> createHmac_sha256 =
         (\<lambda>secret input. take 2 (zero_padded secret @ ''00'') @ take 2 (rev input @ ''00'')),
       Buffer_from_base64 = filter (\<lambda>c. c \<noteq> CHR ''=''),
       toString_utf8 = (\<lambda>b. b),
       JSON_parse = map_of
         [(''e30'', plain_payload),
          (''exp0'', plain_payload\<lparr>tok_exp := Some 0\<rparr>),
          (''exp5'', plain_payload\<lparr>tok_exp := Some 5\<rparr>),
          (''ada1'', plain_payload\<lparr>tok_agentId := Some ''ada''\<rparr>)] \<rparr>"

section \<open>Presence secret resolution\<close>

datatype secret_source = Static | TenantKeys | Registry

record secret_entry =
  entry_secret :: string
  entry_source :: secret_source
  entry_timestamp :: int

text \<open>
  What the resolver reads from outside: the process environment, the outcome of
  \<open>loadSecretFromTenantKeys\<close> for an office, the outcome of
  \<open>fetchPresenceSecretFromRegistry\<close> for an agent and an office, and the cache lifetime
  \<open>SECRET_CACHE_TTL_MS\<close>. The two remote tiers are functions of their arguments; each call
  is recorded in the trace that the resolver returns.
\<close>

record secret_env =
  process_env :: "string \<Rightarrow> string option"
  loadSecretFromTenantKeys :: "string \<Rightarrow> string option"
  fetchPresenceSecretFromRegistry :: "string \<Rightarrow> string \<Rightarrow> string option"
  SECRET_CACHE_TTL_MS :: int

datatype lookup = TenantKeysLookup string | RegistryLookup string string

type_synonym secret_cache = "string \<rightharpoonup> secret_entry"

text \<open>The first truthy value of a chain \<open>a || b || ... || null\<close>.\<close>

fun first_truthy :: "string option list \<Rightarrow> string option" where
  "first_truthy [] = None"
| "first_truthy (v # vs) = (if truthy v then v else first_truthy vs)"

definition static_vars :: "string list" where
  "static_vars =
     [''SKYOFFICE_PRESENCE_SHARED_SECRET'', ''SKYOFFICE_PRESENCE_SECRET'',
      ''PRESENCE_SHARED_SECRET'', ''SHARED_SECRET'']"

definition staticSecret :: "secret_env \<Rightarrow> string option" where
  "staticSecret e = first_truthy (map (process_env e) static_vars)"

definition resolvedOfficeId :: "secret_env \<Rightarrow> string option \<Rightarrow> string option" where
  "resolvedOfficeId e office =
     first_truthy
       [office,
        process_env e ''REGISTRY_OFFICE_ID'',
        process_env e ''OFFICE_ID'',
        process_env e ''SKYOFFICE_OFFICE_ID'']"

definition resolvePresenceSecret ::
  "string_lib \<Rightarrow> secret_env \<Rightarrow> int \<Rightarrow> secret_cache \<Rightarrow> string \<Rightarrow> string option
     \<Rightarrow> secret_entry option \<times> secret_cache \<times> lookup list" where
  "resolvePresenceSecret lib e now cache agent office =
     (case staticSecret e of
        Some st \<Rightarrow> (Some \<lparr> entry_secret = st, entry_source = Static, entry_timestamp = now \<rparr>, cache, [])
      | None \<Rightarrow>
          (case resolvedOfficeId e office of
             None \<Rightarrow> (None, cache, [])
           | Some oid \<Rightarrow>
               (let cacheKey = oid @ '':'' @ toLowerCase lib agent;
                    fresh = (case cache cacheKey of
                               Some c \<Rightarrow> now - entry_timestamp c < SECRET_CACHE_TTL_MS e
                             | None \<Rightarrow> False)
                in if fresh then (cache cacheKey, cache, [])
                   else
                     (case first_truthy [loadSecretFromTenantKeys e oid] of
                        Some tenantSecret \<Rightarrow>
                          (let entry = \<lparr> entry_secret = tenantSecret,
                                         entry_source = TenantKeys, entry_timestamp = now \<rparr>
                           in (Some entry, cache(cacheKey \<mapsto> entry), [TenantKeysLookup oid]))
                      | None \<Rightarrow>
                          (case first_truthy [fetchPresenceSecretFromRegistry e agent oid] of
                             Some registrySecret \<Rightarrow>
                               (let entry = \<lparr> entry_secret = registrySecret,
                                              entry_source = Registry, entry_timestamp = now \<rparr>
                                in (Some entry, cache(cacheKey \<mapsto> entry),
                                    [TenantKeysLookup oid, RegistryLookup agent oid]))
                           | None \<Rightarrow>
                               (None, cache, [TenantKeysLookup oid, RegistryLookup agent oid]))))))"

text \<open>Sample environments for evaluating the resolver.\<close>

definition static_env :: secret_env where
  "static_env =
     \<lparr> process_env = [''PRESENCE_SHARED_SECRET'' \<mapsto> ''s3'', ''SHARED_SECRET'' \<mapsto> ''s4''],
       loadSecretFromTenantKeys = (\<lambda>_. Some ''tenant''),
       fetchPresenceSecretFromRegistry = (\<lambda>_ _. Some ''reg''),
       SECRET_CACHE_TTL_MS = 300000 \<rparr>"

definition remote_env :: secret_env where
  "remote_env =
     \<lparr> process_env = Map.empty,
       loadSecretFromTenantKeys = (\<lambda>_. None),
       fetchPresenceSecretFromRegistry = (\<lambda>_ _. Some ''k1''),
       SECRET_CACHE_TTL_MS = 300000 \<rparr>"

text \<open>
  Environments in which a variable is set to the empty string, and one whose registry
  answers with an empty secret.
\<close>

definition empty_first_env :: secret_env where
  "empty_first_env =
     \<lparr> process_env = [''SKYOFFICE_PRESENCE_SHARED_SECRET'' \<mapsto> [], ''SHARED_SECRET'' \<mapsto> ''s4''],
       loadSecretFromTenantKeys = (\<lambda>_. Some ''tenant''),
       fetchPresenceSecretFromRegistry = (\<lambda>_ _. Some ''reg''),
       SECRET_CACHE_TTL_MS = 300000 \<rparr>"

definition only_empty_env :: secret_env where
  "only_empty_env =
     \<lparr> process_env = [''SKYOFFICE_PRESENCE_SHARED_SECRET'' \<mapsto> []],
       loadSecretFromTenantKeys = (\<lambda>_. Some ''tenant''),
       fetchPresenceSecretFromRegistry = (\<lambda>_ _. Some ''reg''),
       SECRET_CACHE_TTL_MS = 300000 \<rparr>"

definition empty_registry_env :: secret_env where
  "empty_registry_env =
     \<lparr> process_env = Map.empty,
       loadSecretFromTenantKeys = (\<lambda>_. None),
       fetchPresenceSecretFromRegistry = (\<lambda>_ _. Some []),
       SECRET_CACHE_TTL_MS = 300000 \<rparr>"

section \<open>Handshake: \<open>onAuth\<close>, \<open>validateNpcHandshake\<close>, \<open>onJoin\<close>\<close>

text \<open>
  A field of the join options is absent, a string, or a value of another type; the code
  tests \<open>typeof v === 'string'\<close> before it trims.
\<close>

datatype jsval = JUndefined | JString string | JOther

definition trimmed_string :: "string_lib \<Rightarrow> jsval \<Rightarrow> string option" where
  "trimmed_string lib v = (case v of JString s \<Rightarrow> Some (trim lib s) | _ \<Rightarrow> None)"

record join_options =
  opt_namespaceSlug :: jsval
  opt_name :: jsval
  opt_password :: "string option"
  opt_agentId :: jsval
  opt_auth_managerToken :: jsval
  opt_managerToken :: jsval

record npc_user_data =
  npcAgentId :: string
  npcKey :: string
  managerTokenPayload :: token_payload
  presenceSecretSource :: secret_source

record client =
  sessionId :: string
  userData :: "npc_user_data option"

datatype server_error = ServerError nat string

text \<open>
  The collaborators of a room (string library, seat table, crypto library,
  \<open>bcrypt.compare\<close>, secret sources, the clock) and the process state a handshake reads and writes: the room, the
  \<open>npcs\<close> table, the directory \<open>namespaceRooms\<close>, the secret cache and the trace of
  remote secret lookups.
\<close>

record server_env =
  strings :: string_lib
  seat_table :: seats
  crypto_lib :: crypto
  bcrypt_compare :: "string \<Rightarrow> string \<Rightarrow> bool"
  secrets :: secret_env
  clock_iso :: string
  clock_ms :: int

record server_state =
  this_room :: room
  npc_db :: npc_store
  namespaceRooms :: "string \<rightharpoonup> room"
  secretCache :: secret_cache
  lookups :: "lookup list"

definition getRoomByNamespaceSlug ::
  "string_lib \<Rightarrow> server_state \<Rightarrow> string \<Rightarrow> room option" where
  "getRoomByNamespaceSlug lib st slug = namespaceRooms st (toLowerCase lib (trim lib slug))"

definition payload_of_row :: "persisted_npc \<Rightarrow> npc_payload" where
  "payload_of_row npc =
     \<lparr> agentId = db_agentId npc,
       registryAgentId = db_registryAgentId npc,
       name = db_name npc,
       avatarId = db_avatarId npc,
       workstationId = db_workstationId npc,
       position = Some (db_positionX npc, db_positionY npc),
       role = db_role npc,
       officeId = db_officeId npc,
       computerId = db_computerId npc,
       voiceAgentId = db_voiceAgentId npc,
       namespaceSlug = db_namespaceSlug npc,
       agentMetadata = db_agentMetadata npc \<rparr>"

definition rehydrate :: "server_env \<Rightarrow> persisted_npc \<Rightarrow> server_state \<Rightarrow> server_state" where
  "rehydrate env npc st =
     (let r = upsertNpc (strings env) (seat_table env) (clock_iso env) (payload_of_row npc)
                \<lparr> skipPersistence = True, skipRegistrySync = True \<rparr>
                (this_room st, npc_db st)
      in st\<lparr> this_room := fst (snd r), npc_db := snd (snd r) \<rparr>)"

definition ensureNpcAssignmentsLoaded :: "server_env \<Rightarrow> bool \<Rightarrow> server_state \<Rightarrow> server_state" where
  "ensureNpcAssignmentsLoaded env force st =
     (if \<not> force \<and> npcAssignments (this_room st) \<noteq> [] then st
      else
        (let npcs = filter
               (\<lambda>npc. js_or (db_roomName npc) (Some ''Public Lobby'')
                        = Some (room_name (this_room st)))
               (npc_db st)
         in fold (rehydrate env) npcs st))"

definition json_roomId :: "string \<Rightarrow> string" where
  "json_roomId rid = ''{\"roomId\":\"'' @ rid @ ''\"}''"

text \<open>
  The namespace the request expects and the namespace of this room, as
  \<open>validateNpcHandshake\<close> computes them.
\<close>

definition expectedNamespaceLower ::
  "string_lib \<Rightarrow> join_options \<Rightarrow> room \<Rightarrow> string option" where
  "expectedNamespaceLower lib opts rm =
     map_option (toLowerCase lib)
       (first_truthy [trimmed_string lib (opt_namespaceSlug opts), room_namespaceSlug rm,
                      Some (room_name rm)])"

definition currentNamespaceLower :: "string_lib \<Rightarrow> room \<Rightarrow> string option" where
  "currentNamespaceLower lib rm =
     map_option (toLowerCase lib) (first_truthy [room_namespaceSlug rm])"

text \<open>The error thrown when the room has no assignment for the agent: redirect or not found.\<close>

definition assignment_missing ::
  "string_lib \<Rightarrow> join_options \<Rightarrow> room \<Rightarrow> server_state \<Rightarrow> string \<Rightarrow> server_error" where
  "assignment_missing lib opts rm st agentRaw =
     (case (if expectedNamespaceLower lib opts rm \<noteq> None \<and> currentNamespaceLower lib rm \<noteq> None
               \<and> expectedNamespaceLower lib opts rm \<noteq> currentNamespaceLower lib rm
            then getRoomByNamespaceSlug lib st (the (expectedNamespaceLower lib opts rm))
            else None) of
        Some targetRoom \<Rightarrow> ServerError 410 (json_roomId (room_roomId targetRoom))
      | None \<Rightarrow>
          ServerError 404
            (''NPC assignment not found for agent '' @ [CHR 0x27] @ agentRaw @ [CHR 0x27]))"

text \<open>The checks of the verified payload against the request and the assignment.\<close>

definition payload_mismatch ::
  "string_lib \<Rightarrow> string \<Rightarrow> string option \<Rightarrow> npc_assignment \<Rightarrow> token_payload \<Rightarrow> server_error option" where
  "payload_mismatch lib agentRaw expected assignment payload =
     (if (case first_truthy [tok_agentId payload] of
            Some a \<Rightarrow> toLowerCase lib (trim lib a) \<noteq> agentRaw
          | None \<Rightarrow> False)
      then Some (ServerError 403 ''managerToken agent mismatch'')
      else if (case first_truthy [tok_namespace payload, tok_namespaceSlug payload] of
                 Some ns \<Rightarrow>
                   expected \<noteq> None \<and> toLowerCase lib (trim lib ns) \<noteq> []
                   \<and> Some (toLowerCase lib (trim lib ns)) \<noteq> expected
               | None \<Rightarrow> False)
      then Some (ServerError 403 ''managerToken namespace mismatch'')
      else if (case first_truthy [namespaceSlug assignment] of
                 Some ns \<Rightarrow> expected \<noteq> None \<and> Some (toLowerCase lib ns) \<noteq> expected
               | None \<Rightarrow> False)
      then Some (ServerError 403 ''NPC namespace mismatch'')
      else None)"

text \<open>
  Looking the agent up: the persisted rows are loaded if the table is empty, and loaded
  again by force when the agent is still missing.
\<close>

definition load_assignments :: "server_env \<Rightarrow> string \<Rightarrow> server_state \<Rightarrow> server_state" where
  "load_assignments env agentRaw st =
     (let st1 = ensureNpcAssignmentsLoaded env False st
      in case map_of (npcAssignments (this_room st1)) agentRaw of
           None \<Rightarrow> ensureNpcAssignmentsLoaded env True st1
         | Some _ \<Rightarrow> st1)"

text \<open>
  The rest of the handshake once the assignment is found: resolve the secret, verify the
  token, compare the payload, mark the client.
\<close>

definition verify_handshake ::
  "server_env \<Rightarrow> string option \<Rightarrow> client \<Rightarrow> string \<Rightarrow> string \<Rightarrow> npc_assignment
     \<Rightarrow> server_state \<Rightarrow> (server_error + client) \<times> server_state" where
  "verify_handshake env expected c token agentRaw assignment st =
     (let res = resolvePresenceSecret (strings env) (secrets env) (clock_ms env) (secretCache st)
                  agentRaw (first_truthy [officeId assignment]);
          st' = st\<lparr> secretCache := fst (snd res), lookups := lookups st @ snd (snd res) \<rparr>;
          secretSource = (case fst res of Some e \<Rightarrow> entry_source e | None \<Rightarrow> Registry)
      in case first_truthy [map_option entry_secret (fst res)] of
           None \<Rightarrow> (Inl (ServerError 503 ''Presence credential unavailable''), st')
         | Some secretToUse \<Rightarrow>
            (case verifyManagerToken (crypto_lib env) (clock_ms env) token secretToUse of
               Inl err \<Rightarrow>
                 (Inl (ServerError 403 (''Invalid managerToken ('' @ error_message err @ '')'')), st')
             | Inr payload \<Rightarrow>
                 (case payload_mismatch (strings env) agentRaw expected assignment payload of
                    Some err \<Rightarrow> (Inl err, st')
                  | None \<Rightarrow>
                      (Inr (c\<lparr> userData := Some
                              \<lparr> npcAgentId = agentRaw,
                                npcKey = getNpcKey agentRaw,
                                managerTokenPayload = payload,
                                presenceSecretSource = secretSource \<rparr> \<rparr>),
                       st'))))"

definition validateNpcHandshake ::
  "server_env \<Rightarrow> join_options \<Rightarrow> client \<Rightarrow> server_state
     \<Rightarrow> (server_error + client) \<times> server_state" where
  "validateNpcHandshake env opts c st =
     (let agentRaw = (case opt_agentId opts of
                        JString s \<Rightarrow> toLowerCase (strings env) (trim (strings env) s)
                      | _ \<Rightarrow> [])
      in if agentRaw = [] then (Inr c, st)
      else
        (case first_truthy [trimmed_string (strings env) (opt_auth_managerToken opts),
                            trimmed_string (strings env) (opt_managerToken opts)] of
           None \<Rightarrow> (Inl (ServerError 403 ''managerToken is required for NPC connections''), st)
         | Some token \<Rightarrow>
            (let st2 = load_assignments env agentRaw st
             in case map_of (npcAssignments (this_room st2)) agentRaw of
                  None \<Rightarrow>
                    (Inl (assignment_missing (strings env) opts (this_room st) st2 agentRaw), st2)
                | Some assignment \<Rightarrow>
                    verify_handshake env
                      (expectedNamespaceLower (strings env) opts (this_room st)) c token
                      agentRaw assignment st2)))"

definition namespace_mismatch :: "string_lib \<Rightarrow> join_options \<Rightarrow> room \<Rightarrow> bool" where
  "namespace_mismatch lib opts rm =
     (let requestedNamespace =
            first_truthy
              [map_option (toLowerCase lib) (trimmed_string lib (opt_namespaceSlug opts)),
               map_option (toLowerCase lib) (trimmed_string lib (opt_name opts))];
          currentNamespace =
            (if truthy (room_namespaceSlug rm)
             then map_option (\<lambda>s. toLowerCase lib (trim lib s)) (room_namespaceSlug rm)
             else None)
      in truthy requestedNamespace \<and> truthy currentNamespace
         \<and> requestedNamespace \<noteq> currentNamespace)"

definition password_check :: "server_env \<Rightarrow> join_options \<Rightarrow> room \<Rightarrow> server_error option" where
  "password_check env opts rm =
     (case first_truthy [room_password rm] of
        None \<Rightarrow> None
      | Some hash \<Rightarrow>
          (case first_truthy [opt_password opts] of
             None \<Rightarrow> Some (ServerError 403 ''Password is required!'')
           | Some pw \<Rightarrow>
               if bcrypt_compare env pw hash then None
               else Some (ServerError 403 ''Password is incorrect!'')))"

definition onAuth ::
  "server_env \<Rightarrow> join_options \<Rightarrow> client \<Rightarrow> server_state
     \<Rightarrow> (server_error + client) \<times> server_state" where
  "onAuth env opts c st =
     (if namespace_mismatch (strings env) opts (this_room st)
      then (Inl (ServerError 403 ''Namespace mismatch''), st)
      else
        (case password_check env opts (this_room st) of
           Some err \<Rightarrow> (Inl err, st)
         | None \<Rightarrow> validateNpcHandshake env opts c st))"





text \<open>
  The transport creates the client of a new connection with its session id and no user
  data; only \<open>validateNpcHandshake\<close> writes user data.
\<close>

definition connect :: "string \<Rightarrow> client" where
  "connect sid = \<lparr> sessionId = sid, userData = None \<rparr>"


text \<open>Sample collaborators and two live rooms, \<open>alpha\<close> and \<open>beta\<close>.\<close>

definition sample_env :: server_env where
  "sample_env =
     \<lparr> strings = sample_strings, seat_table = sample_seats, crypto_lib = sample_crypto,
       bcrypt_compare = (\<lambda>pw hash. hash = ''hash:'' @ pw),
       secrets = remote_env, clock_iso = ''2025-01-01T00:00:00.000Z'', clock_ms = 1000 \<rparr>"

definition alpha_room :: room where
  "alpha_room = onCreate sample_strings ''room-alpha'' ''alpha'' (Some ''alpha'') None"

definition beta_room :: room where
  "beta_room = onCreate sample_strings ''room-beta'' ''beta'' (Some ''beta'') None"

definition alpha_state :: server_state where
  "alpha_state =
     \<lparr> this_room = alpha_room, npc_db = [],
       namespaceRooms = [''alpha'' \<mapsto> alpha_room, ''beta'' \<mapsto> beta_room],
       secretCache = Map.empty, lookups = [] \<rparr>"

text \<open>Room \<open>alpha\<close> after an agent was deployed there under the identifier \<open>a\<close>.\<close>

definition deployed_state :: "string \<Rightarrow> server_state" where
  "deployed_state a =
     alpha_state\<lparr> this_room :=
       fst (snd (upsertNpc sample_strings sample_seats ''t0'' (sample_payload a None) persist_all
                   (alpha_room, []))) \<rparr>"

definition npc_options :: "string \<Rightarrow> jsval \<Rightarrow> jsval \<Rightarrow> join_options" where
  "npc_options ns agent token =
     \<lparr> opt_namespaceSlug = JString ns, opt_name = JUndefined, opt_password = None,
       opt_agentId = agent, opt_auth_managerToken = JUndefined, opt_managerToken = token \<rparr>"

definition fresh_client :: client where
  "fresh_client = connect ''s-1''"



section \<open>Walkable map: the precomputed grid\<close>

record walkable_map =
  grid :: "int list list"
  width :: int
  height :: int
  tileWidth :: int
  tileHeight :: int

text \<open>
  The parsed sidecar file. \<open>data.grid\<close> is present when it is an array; each of its rows
  is an array of numbers or something else. Hashes are optional strings, tile sizes
  optional numbers.
\<close>

datatype jrow = JRow "int list" | JNotArray

record sidecar =
  sc_grid :: "jrow list option"
  sc_tileWidth :: "int option"
  sc_tileHeight :: "int option"
  sc_mapHash :: "string option"
  sc_gridHash :: "string option"

record expected_meta =
  ex_width :: int
  ex_height :: int
  ex_tileWidth :: int
  ex_tileHeight :: int
  ex_mapHash :: "string option"

datatype grid_error =
    MissingGridArray | InconsistentRowWidth | SizeMismatch | TileSizeMismatch
  | MissingMapHash | MapHashMismatch | GridHashMismatch

text \<open>\<open>JSON.stringify\<close> of a grid of zeros and ones.\<close>

fun join_with :: "string \<Rightarrow> string list \<Rightarrow> string" where
  "join_with sep [] = []"
| "join_with sep [s] = s"
| "join_with sep (s # t # ts) = s @ sep @ join_with sep (t # ts)"

definition stringify_cell :: "int \<Rightarrow> string" where
  "stringify_cell v = (if v = 0 then ''0'' else ''1'')"

definition stringify_grid :: "int list list \<Rightarrow> string" where
  "stringify_grid g =
     ''['' @ join_with '','' (map (\<lambda>r. ''['' @ join_with '','' (map stringify_cell r) @ '']'') g) @ '']''"

text \<open>SHA-256 (hex digest) is Node's; it is a parameter.\<close>

definition computeGridHash :: "(string \<Rightarrow> string) \<Rightarrow> int list list \<Rightarrow> string" where
  "computeGridHash sha256 g = sha256 (stringify_grid g)"

definition row_cells :: "jrow \<Rightarrow> int list" where
  "row_cells r = (case r of JRow cells \<Rightarrow> cells | JNotArray \<Rightarrow> [])"

definition normalise_rows :: "jrow list \<Rightarrow> int list list" where
  "normalise_rows rows = map (\<lambda>r. map (\<lambda>v. if v \<noteq> 0 then 1 else 0) (row_cells r)) rows"

definition row_fits :: "nat \<Rightarrow> jrow \<Rightarrow> bool" where
  "row_fits w r = (case r of JRow cells \<Rightarrow> length cells = w | JNotArray \<Rightarrow> False)"

definition first_nonzero :: "int option list \<Rightarrow> int" where
  "first_nonzero vs = (case filter (\<lambda>v. v \<noteq> None \<and> v \<noteq> Some 0) vs of Some v # _ \<Rightarrow> v | _ \<Rightarrow> 32)"

definition check_expected ::
  "nat \<Rightarrow> nat \<Rightarrow> sidecar \<Rightarrow> expected_meta option \<Rightarrow> grid_error option" where
  "check_expected w h data expected =
     (case expected of
        None \<Rightarrow> None
      | Some ex \<Rightarrow>
          if int w \<noteq> ex_width ex \<or> int h \<noteq> ex_height ex then Some SizeMismatch
          else if (case sc_tileWidth data of Some t \<Rightarrow> t | None \<Rightarrow> ex_tileWidth ex) \<noteq> ex_tileWidth ex
                  \<or> (case sc_tileHeight data of Some t \<Rightarrow> t | None \<Rightarrow> ex_tileHeight ex) \<noteq> ex_tileHeight ex
               then Some TileSizeMismatch
          else if truthy (ex_mapHash ex) then
            (if \<not> truthy (sc_mapHash data) then Some MissingMapHash
             else if sc_mapHash data \<noteq> ex_mapHash ex then Some MapHashMismatch
             else None)
          else None)"

definition loadPrecomputedGrid ::
  "(string \<Rightarrow> string) \<Rightarrow> sidecar option \<Rightarrow> expected_meta option
     \<Rightarrow> grid_error + walkable_map option" where
  "loadPrecomputedGrid sha256 file expected =
     (case file of
        None \<Rightarrow> Inr None
      | Some data \<Rightarrow>
          (case sc_grid data of
             None \<Rightarrow> Inl MissingGridArray
           | Some [] \<Rightarrow> Inl MissingGridArray
           | Some (row0 # rest) \<Rightarrow>
               (let h = length (row0 # rest);
                    w = length (row_cells row0)
                in if w = 0 \<or> \<not> list_all (row_fits w) (row0 # rest)
                   then Inl InconsistentRowWidth
                   else
                     (case check_expected w h data expected of
                        Some err \<Rightarrow> Inl err
                      | None \<Rightarrow>
                          (let tw = first_nonzero [sc_tileWidth data, map_option ex_tileWidth expected];
                               th = first_nonzero [sc_tileHeight data, map_option ex_tileHeight expected];
                               g = normalise_rows (row0 # rest);
                               computedGridHash = computeGridHash sha256 g
                           in if truthy (sc_gridHash data)
                                 \<and> sc_gridHash data \<noteq> Some computedGridHash
                              then Inl GridHashMismatch
                              else Inr (Some \<lparr> grid = g, width = int w, height = int h,
                                               tileWidth = tw, tileHeight = th \<rparr>))))))"

text \<open>
  \<open>buildDefaultMap\<close> reads the map file and parses it. When that gives map data, the
  sidecar is loaded against the map's dimensions and tile sizes and the SHA-256 of the
  map file's text; when the file cannot be read or parsed, or parses to a falsy value,
  the sidecar is loaded with no expectation at all. \<open>JSON.parse\<close> is a parameter that
  returns the map data or nothing. The result \<open>Inr None\<close> stands for the last resort,
  rebuilding the grid from the map with \<open>WalkableMap.fromTiledJson\<close>.
\<close>

record map_data =
  md_width :: int
  md_height :: int
  md_tilewidth :: int
  md_tileheight :: int

definition expected_of_map :: "(string \<Rightarrow> string) \<Rightarrow> string \<Rightarrow> map_data \<Rightarrow> expected_meta" where
  "expected_of_map sha256 mapRaw mapData =
     \<lparr> ex_width = md_width mapData, ex_height = md_height mapData,
       ex_tileWidth = md_tilewidth mapData, ex_tileHeight = md_tileheight mapData,
       ex_mapHash = Some (sha256 mapRaw) \<rparr>"

definition buildDefaultMap ::
  "(string \<Rightarrow> string) \<Rightarrow> (string \<Rightarrow> map_data option) \<Rightarrow> string option \<Rightarrow> sidecar option
     \<Rightarrow> grid_error + walkable_map option" where
  "buildDefaultMap sha256 parse mapFile gridFile =
     (case mapFile of
        None \<Rightarrow> loadPrecomputedGrid sha256 gridFile None
      | Some mapRaw \<Rightarrow>
          (case parse mapRaw of
             None \<Rightarrow> loadPrecomputedGrid sha256 gridFile None
           | Some mapData \<Rightarrow>
               loadPrecomputedGrid sha256 gridFile (Some (expected_of_map sha256 mapRaw mapData))))"

text \<open>
  A stand-in digest (injective, never empty), a parser that knows two map texts, and a
  sample sidecar of the first.
\<close>

definition sample_sha :: "string \<Rightarrow> string" where
  "sample_sha s = ''sha:'' @ s"

definition sample_parse :: "string \<Rightarrow> map_data option" where
  "sample_parse =
     map_of
       [(''{map}'', \<lparr> md_width = 2, md_height = 2, md_tilewidth = 32, md_tileheight = 32 \<rparr>),
        (''{map }'', \<lparr> md_width = 2, md_height = 2, md_tilewidth = 32, md_tileheight = 32 \<rparr>)]"

definition sample_sidecar :: sidecar where
  "sample_sidecar =
     \<lparr> sc_grid = Some [JRow [0, 1], JRow [0, 0]],
       sc_tileWidth = Some 32, sc_tileHeight = Some 32,
       sc_mapHash = Some ''sha:{map}'',
       sc_gridHash = Some ''sha:[[0,1],[0,0]]'' \<rparr>"

definition sample_grid :: walkable_map where
  "sample_grid =
     \<lparr> grid = [[0, 1], [0, 0]], width = 2, height = 2, tileWidth = 32, tileHeight = 32 \<rparr>"

section \<open>Walkable map: A* path search\<close>

text \<open>
  Tiles are pairs \<open>(x, y)\<close> of integers, pixels pairs of rationals (exact arithmetic in
  place of doubles). The maps of \<open>findPath\<close> are keyed by the string \<open>"x,y"\<close>, which
  determines the tile; here the tile itself is the key. \<open>openSet\<close> keeps insertion
  order, as a JavaScript \<open>Map\<close> does.
\<close>

type_synonym tile = "int \<times> int"
type_synonym point = "rat \<times> rat"

definition toTile :: "walkable_map \<Rightarrow> point \<Rightarrow> tile" where
  "toTile m p =
     (max 0 (min (width m - 1) \<lfloor>fst p / of_int (tileWidth m)\<rfloor>),
      max 0 (min (height m - 1) \<lfloor>snd p / of_int (tileHeight m)\<rfloor>))"

definition toPixel :: "walkable_map \<Rightarrow> tile \<Rightarrow> point" where
  "toPixel m t =
     (of_int (fst t * tileWidth m) + of_int (tileWidth m) / 2,
      of_int (snd t * tileHeight m) + of_int (tileHeight m) / 2)"

text \<open>The grid has \<open>height\<close> rows of \<open>width\<close> cells, so that a lookup within bounds is defined.\<close>

definition wf_map :: "walkable_map \<Rightarrow> bool" where
  "wf_map m =
     (int (length (grid m)) = height m \<and> list_all (\<lambda>r. int (length r) = width m) (grid m))"

definition isWalkable :: "walkable_map \<Rightarrow> tile \<Rightarrow> bool" where
  "isWalkable m t =
     (if fst t < 0 \<or> snd t < 0 \<or> fst t \<ge> width m \<or> snd t \<ge> height m then False
      else grid m ! nat (snd t) ! nat (fst t) = 0)"

definition heuristic :: "tile \<Rightarrow> tile \<Rightarrow> nat" where
  "heuristic targetTile t = nat \<bar>fst t - fst targetTile\<bar> + nat \<bar>snd t - snd targetTile\<bar>"

record astar_state =
  openSet :: "(tile \<times> enat) list"
  gScore :: "tile \<rightharpoonup> enat"
  cameFrom :: "tile \<rightharpoonup> tile"
  tileByKey :: "tile \<rightharpoonup> tile"
  closedSet :: "tile set"

definition directions :: "tile list" where
  "directions = [(1, 0), (-1, 0), (0, 1), (0, -1)]"

text \<open>The scan of \<open>openSet\<close> for the entry of least \<open>f\<close>; the first found wins a tie.\<close>

fun pick :: "tile \<times> enat \<Rightarrow> (tile \<times> enat) option \<Rightarrow> (tile \<times> enat) option" where
  "pick node None = Some node"
| "pick node (Some currentNode) =
     (if snd node < snd currentNode then Some node else Some currentNode)"

definition select_current :: "(tile \<times> enat) list \<Rightarrow> (tile \<times> enat) option" where
  "select_current os = fold pick os None"

definition visit :: "walkable_map \<Rightarrow> tile \<Rightarrow> tile \<Rightarrow> tile \<Rightarrow> astar_state \<Rightarrow> astar_state" where
  "visit m targetTile current dir st =
     (let neighbor = (fst current + fst dir, snd current + snd dir) in
      if neighbor \<in> closedSet st then st
      else if \<not> isWalkable m neighbor then st
      else
        (let tentativeG = (case gScore st current of Some g \<Rightarrow> g | None \<Rightarrow> \<infinity>) + 1 in
         if (case gScore st neighbor of Some existingG \<Rightarrow> tentativeG \<ge> existingG | None \<Rightarrow> False)
         then st
         else st\<lparr> cameFrom := (cameFrom st)(neighbor \<mapsto> current),
                  gScore := (gScore st)(neighbor \<mapsto> tentativeG),
                  tileByKey := (tileByKey st)(neighbor \<mapsto> neighbor),
                  openSet := AList.update neighbor
                     (tentativeG + enat (heuristic targetTile neighbor)) (openSet st) \<rparr>))"

definition expand :: "walkable_map \<Rightarrow> tile \<Rightarrow> tile \<Rightarrow> astar_state \<Rightarrow> astar_state" where
  "expand m targetTile current st =
     fold (visit m targetTile current) directions
       (st\<lparr> openSet := AList.delete current (openSet st),
            closedSet := insert current (closedSet st) \<rparr>)"

text \<open>
  Path reconstruction, \<open>while (key) { ...; key = cameFrom.get(key) }\<close>, and the main loop.
  Neither loop carries a bound in the source; a run that does not end has no value.
\<close>

partial_function (option) walk_back ::
  "(tile \<rightharpoonup> tile) \<Rightarrow> (tile \<rightharpoonup> tile) \<Rightarrow> tile \<Rightarrow> tile list \<Rightarrow> tile list option" where
  "walk_back tb cf key pathTiles =
     (case cf key of
        None \<Rightarrow> Some (case tb key of Some t \<Rightarrow> pathTiles @ [t] | None \<Rightarrow> pathTiles)
      | Some k \<Rightarrow>
          walk_back tb cf k (case tb key of Some t \<Rightarrow> pathTiles @ [t] | None \<Rightarrow> pathTiles))"

partial_function (option) astar_loop ::
  "walkable_map \<Rightarrow> tile \<Rightarrow> astar_state \<Rightarrow> tile list option option" where
  "astar_loop m targetTile st =
     (case select_current (openSet st) of
        None \<Rightarrow> Some None
      | Some currentNode \<Rightarrow>
          if fst currentNode = targetTile
          then map_option (\<lambda>pathTiles. Some (rev pathTiles))
                 (walk_back (tileByKey st) (cameFrom st) (fst currentNode) [])
          else astar_loop m targetTile (expand m targetTile (fst currentNode) st))"

definition initial_state :: "tile \<Rightarrow> tile \<Rightarrow> astar_state" where
  "initial_state targetTile startTile =
     \<lparr> openSet = [(startTile, enat (heuristic targetTile startTile))],
       gScore = [startTile \<mapsto> 0],
       cameFrom = Map.empty,
       tileByKey = [startTile \<mapsto> startTile],
       closedSet = {} \<rparr>"

definition findPath :: "walkable_map \<Rightarrow> point \<Rightarrow> point \<Rightarrow> point list option option" where
  "findPath m start target =
     (let startTile = toTile m start; targetTile = toTile m target in
      if startTile = targetTile then Some (Some [toPixel m targetTile])
      else map_option (map_option (map (toPixel m)))
             (astar_loop m targetTile (initial_state targetTile startTile)))"

definition adjacent :: "tile \<Rightarrow> tile \<Rightarrow> bool" where
  "adjacent a b = (\<bar>fst a - fst b\<bar> + \<bar>snd a - snd b\<bar> = 1)"

text \<open>A list of keys that follows \<open>cameFrom\<close> from its head to a key without predecessor.\<close>

fun is_chain :: "(tile \<rightharpoonup> tile) \<Rightarrow> tile list \<Rightarrow> bool" where
  "is_chain cf [] = False"
| "is_chain cf [k] = (cf k = None)"
| "is_chain cf (k # p # ks) = (cf k = Some p \<and> is_chain cf (p # ks))"

text \<open>
  The loop invariant: open keys are known; a known key is its own tile and is the start
  or has a predecessor; a predecessor is known and adjacent, and its successor is
  walkable; the start has no predecessor and is closed once anything else is open.
\<close>

definition astar_inv :: "walkable_map \<Rightarrow> tile \<Rightarrow> astar_state \<Rightarrow> bool" where
  "astar_inv m startTile st =
     ((\<forall>k \<in> fst ` set (openSet st). tileByKey st k = Some k)
      \<and> (\<forall>k t. tileByKey st k = Some t \<longrightarrow> t = k \<and> (k = startTile \<or> cameFrom st k \<noteq> None))
      \<and> (\<forall>k p. cameFrom st k = Some p \<longrightarrow>
             tileByKey st p = Some p \<and> tileByKey st k = Some k \<and> adjacent p k \<and> isWalkable m k)
      \<and> cameFrom st startTile = None
      \<and> (startTile \<in> closedSet st \<or> fst ` set (openSet st) \<subseteq> {startTile}))"

definition corridor :: walkable_map where
  "corridor = \<lparr> grid = [[0, 0], [1, 0]], width = 2, height = 2, tileWidth = 32, tileHeight = 32 \<rparr>"

definition blocked_cell :: walkable_map where
  "blocked_cell = \<lparr> grid = [[1]], width = 1, height = 1, tileWidth = 32, tileHeight = 32 \<rparr>"


text \<open>What a returned tile sequence satisfies.\<close>

definition good_route :: "walkable_map \<Rightarrow> tile \<Rightarrow> tile \<Rightarrow> tile list \<Rightarrow> bool" where
  "good_route m s t tiles =
     (tiles \<noteq> [] \<and> hd tiles = s \<and> last tiles = t
      \<and> list_all (isWalkable m) (tl tiles) \<and> successively adjacent tiles)"


text \<open>
  For termination: the tiles the search can ever close (the start and the walkable
  tiles), and the invariant that open keys are unclosed candidates with finite scores
  and that every predecessor is closed and one step nearer to the start.
\<close>

definition candidates :: "walkable_map \<Rightarrow> tile \<Rightarrow> tile set" where
  "candidates m s = insert s {t. isWalkable m t}"

definition term_inv :: "walkable_map \<Rightarrow> tile \<Rightarrow> astar_state \<Rightarrow> bool" where
  "term_inv m s st =
     ((\<forall>k \<in> fst ` set (openSet st). k \<notin> closedSet st \<and> k \<in> candidates m s)
      \<and> closedSet st \<subseteq> candidates m s
      \<and> (\<forall>k \<in> fst ` set (openSet st) \<union> closedSet st. \<exists>g. gScore st k = Some (enat g))
      \<and> (\<forall>k p. cameFrom st k = Some p \<longrightarrow>
            p \<in> closedSet st
            \<and> (\<exists>g. gScore st p = Some (enat g) \<and> gScore st k = Some (enat (Suc g)))))"


section \<open>NPC operations: players, assignments and seats\<close>

lemma getNpcKey_inj: "(getNpcKey a = getNpcKey b) = (a = b)"
  by (simp add: getNpcKey_def)

lemma upsertNpc_players:
  "dom (players (fst (snd (upsertNpc lib seat now p opts st))))
     = insert (getNpcKey (agentId p)) (dom (players (fst st)))"
  by (simp add: upsertNpc_def Let_def)

lemma upsertNpc_assignments:
  "dom (map_of (npcAssignments (fst (snd (upsertNpc lib seat now p opts st)))))
     = insert (agentId p) (dom (map_of (npcAssignments (fst st))))"
  by (simp add: upsertNpc_def Let_def update_conv')

lemma removeNpc_players:
  "dom (players (fst (snd (removeNpc a st)))) = dom (players (fst st)) - {getNpcKey a}"
  by (simp add: removeNpc_def Let_def)

lemma removeNpc_assignments:
  "dom (map_of (npcAssignments (fst (snd (removeNpc a st)))))
     = dom (map_of (npcAssignments (fst st))) - {a}"
  by (simp add: removeNpc_def Let_def delete_conv')

lemma apply_op_agree:
  "npc_players_agree (fst st) \<Longrightarrow> npc_players_agree (fst (apply_op lib seat opn st))"
  unfolding npc_players_agree_def
  by (cases opn)
     (simp_all add: upsertNpc_players upsertNpc_assignments removeNpc_players
        removeNpc_assignments getNpcKey_inj)

lemma run_ops_agree:
  "npc_players_agree (fst st) \<Longrightarrow> npc_players_agree (fst (run_ops lib seat ops st))"
  by (induction ops arbitrary: st) (simp_all add: apply_op_agree)

lemma onCreate_agree: "npc_players_agree (onCreate lib rid nm slug pw)"
  by (simp add: npc_players_agree_def onCreate_def Let_def)

text \<open>
  Claim C5. Starting from a fresh room, after any finite sequence of \<open>upsertNpc\<close> and
  \<open>removeNpc\<close> calls the players map has an entry at key \<open>"npc-" + K\<close> exactly when the
  assignment table has an entry at key \<open>K\<close>, for every agent key \<open>K\<close>.
\<close>

theorem players_iff_assignments:
  "(getNpcKey K \<in> dom (players (fst (run_ops lib seat ops (onCreate lib rid nm slug pw, db)))))
     = (K \<in> dom (map_of (npcAssignments (fst (run_ops lib seat ops (onCreate lib rid nm slug pw, db))))))"
  using run_ops_agree [of "(onCreate lib rid nm slug pw, db)" lib seat ops]
    onCreate_agree [of lib rid nm slug pw]
  by (simp add: npc_players_agree_def)

theorem players_iff_assignments_witness:
  "(getNpcKey ''a.x'' \<in> dom (players (fst (run_ops sample_strings sample_seats
        [Upsert ''t0'' (sample_payload ''a.x'' None) persist_all, Remove ''b'']
        (onCreate sample_strings ''r1'' ''public'' None None, [])))))
   \<and> ''a.x'' \<in> dom (map_of (npcAssignments (fst (run_ops sample_strings sample_seats
        [Upsert ''t0'' (sample_payload ''a.x'' None) persist_all, Remove ''b'']
        (onCreate sample_strings ''r1'' ''public'' None None, [])))))"
  using players_iff_assignments [of "''a.x''" sample_strings sample_seats
      "[Upsert ''t0'' (sample_payload ''a.x'' None) persist_all, Remove ''b'']"
      "''r1''" "''public''" None None "[]"]
  by (simp add: upsertNpc_def removeNpc_def Let_def sample_payload_def update_conv' delete_conv')

lemma occupied_release:
  "occupied (release_computers k cs) k' = (if k' = k then {} else occupied cs k')"
  by (auto simp: occupied_def release_computers_def split: option.splits)

lemma occupied_seat:
  "cs cid = Some target \<Longrightarrow>
   occupied (cs(cid \<mapsto> target\<lparr>connectedUser := insert k (connectedUser target)\<rparr>)) k'
     = (if k' = k then insert cid (occupied cs k') else occupied cs k')"
  by (auto simp: occupied_def split: option.splits)

lemma assign_single_seat:
  "single_seat cs \<Longrightarrow> single_seat (snd (assignNpcToWorkstation seat k p cs))"
  unfolding single_seat_def assignNpcToWorkstation_def Let_def
  by (auto simp: occupied_release occupied_seat split: option.splits if_splits)

lemma release_single_seat: "single_seat cs \<Longrightarrow> single_seat (release_computers k cs)"
  unfolding single_seat_def by (auto simp: occupied_release split: if_splits)

lemma upsertNpc_computers:
  "computers (fst (snd (upsertNpc lib seat now p opts st)))
     = snd (assignNpcToWorkstation seat (getNpcKey (agentId p)) p (computers (fst st)))"
  by (simp add: upsertNpc_def Let_def)

lemma removeNpc_computers:
  "computers (fst (snd (removeNpc a st))) = release_computers (getNpcKey a) (computers (fst st))"
  by (simp add: removeNpc_def Let_def)

lemma apply_op_single_seat:
  "single_seat (computers (fst st)) \<Longrightarrow> single_seat (computers (fst (apply_op lib seat opn st)))"
  by (cases opn) (simp_all add: upsertNpc_computers removeNpc_computers assign_single_seat release_single_seat)

lemma run_ops_single_seat:
  "single_seat (computers (fst st)) \<Longrightarrow> single_seat (computers (fst (run_ops lib seat ops st)))"
  by (induction ops arbitrary: st) (simp_all add: apply_op_single_seat)

lemma onCreate_single_seat: "single_seat (computers (onCreate lib rid nm slug pw))"
  by (simp add: single_seat_def onCreate_def Let_def occupied_def seed_def)

lemma single_seat_subset:
  assumes "single_seat cs"
  shows "\<exists>c. occupied cs k \<subseteq> {c}"
proof (cases "occupied cs k = {}")
  case True
  then show ?thesis by simp
next
  case False
  then obtain c where c: "c \<in> occupied cs k" by blast
  have "occupied cs k \<subseteq> {c}"
  proof
    fix x
    assume "x \<in> occupied cs k"
    with assms c have "x = c" unfolding single_seat_def by blast
    then show "x \<in> {c}" by simp
  qed
  then show ?thesis ..
qed

text \<open>The operations neither add nor remove computers.\<close>

lemma release_dom: "dom (release_computers k cs) = dom cs"
  by (auto simp: release_computers_def)

lemma assign_dom: "dom (snd (assignNpcToWorkstation seat k p cs)) = dom cs"
  by (auto simp: assignNpcToWorkstation_def Let_def release_computers_def
        split: option.splits if_splits)

lemma apply_op_dom:
  "dom (computers (fst (apply_op lib seat opn st))) = dom (computers (fst st))"
  by (cases opn) (simp_all add: upsertNpc_computers removeNpc_computers assign_dom release_dom)

lemma run_ops_dom:
  "dom (computers (fst (run_ops lib seat ops st))) = dom (computers (fst st))"
  by (induction ops arbitrary: st) (simp_all add: apply_op_dom)

lemma onCreate_dom:
  "dom (computers (onCreate lib rid nm slug pw)) = {''0'', ''1'', ''2'', ''3'', ''4''}"
  by (auto simp: onCreate_def Let_def seed_def split: if_splits)

lemma assign_exact:
  assumes "workstationId p \<noteq> []"
    and "js_or (computerId p) (seat (workstationId p)) = Some cid"
    and "cid \<noteq> []"
    and "cs cid \<noteq> None"
  shows "occupied (snd (assignNpcToWorkstation seat k p cs)) k = {cid}"
proof -
  from assms(4) obtain t where t: "cs cid = Some t" by blast
  let ?cs' = "release_computers k cs"
  let ?t' = "t\<lparr>connectedUser := connectedUser t - {k}\<rparr>"
  have r: "?cs' cid = Some ?t'" by (simp add: release_computers_def t)
  have "snd (assignNpcToWorkstation seat k p cs)
          = ?cs'(cid \<mapsto> ?t'\<lparr>connectedUser := insert k (connectedUser ?t')\<rparr>)"
    using assms(1-3) r by (simp add: assignNpcToWorkstation_def Let_def)
  then show ?thesis
    using occupied_seat [of "?cs'" cid "?t'" k k] r by (simp add: occupied_release)
qed

text \<open>
  Claim C6 (amended). Starting from a fresh room, after any finite sequence of \<open>upsertNpc\<close>
  and \<open>removeNpc\<close> calls each NPC session key \<open>"npc-" + agentId\<close> is in the
  \<open>connectedUser\<close> set of at most one computer of the room. After a further \<open>upsertNpc\<close>
  whose \<open>workstationId\<close> is not empty and whose effective computer id (the payload's own
  \<open>computerId\<close> when it carries a non-empty one, otherwise the seat resolved from
  \<open>workstationId\<close>) names one of the room's computers, the key is in exactly that
  computer's set and in no other.
\<close>

theorem npc_seat_unique:
  "(\<exists>c. occupied (computers (fst (run_ops lib seat ops (onCreate lib rid nm slug pw, db))))
            (getNpcKey a) \<subseteq> {c})
   \<and> (workstationId p \<noteq> [] \<longrightarrow>
        js_or (computerId p) (seat (workstationId p)) = Some cid \<longrightarrow>
        cid \<in> dom (computers (fst (run_ops lib seat ops (onCreate lib rid nm slug pw, db)))) \<longrightarrow>
        occupied (computers (fst (snd (upsertNpc lib seat now p opts
                    (run_ops lib seat ops (onCreate lib rid nm slug pw, db))))))
          (getNpcKey (agentId p)) = {cid})"
proof (intro conjI impI)
  have "single_seat (computers (fst (run_ops lib seat ops (onCreate lib rid nm slug pw, db))))"
    by (rule run_ops_single_seat) (simp add: onCreate_single_seat)
  then show "\<exists>c. occupied (computers (fst (run_ops lib seat ops (onCreate lib rid nm slug pw, db))))
            (getNpcKey a) \<subseteq> {c}"
    by (rule single_seat_subset)
next
  assume w: "workstationId p \<noteq> []"
    and e: "js_or (computerId p) (seat (workstationId p)) = Some cid"
    and d: "cid \<in> dom (computers (fst (run_ops lib seat ops (onCreate lib rid nm slug pw, db))))"
  from d have "cid \<in> {''0'', ''1'', ''2'', ''3'', ''4''}"
    by (simp add: run_ops_dom onCreate_dom)
  then have n: "cid \<noteq> []" by auto
  from d have "computers (fst (run_ops lib seat ops (onCreate lib rid nm slug pw, db))) cid \<noteq> None"
    by (simp add: domIff)
  with w e n show "occupied (computers (fst (snd (upsertNpc lib seat now p opts
                    (run_ops lib seat ops (onCreate lib rid nm slug pw, db))))))
          (getNpcKey (agentId p)) = {cid}"
    by (simp add: upsertNpc_computers assign_exact)
qed

lemma occupied_seed: "occupied (seed ks) k = {}"
  by (induction ks) (auto simp: occupied_def seed_def split: option.splits if_splits)

lemma assign_no_workstation:
  "workstationId p = [] \<Longrightarrow> assignNpcToWorkstation seat k p cs = (None, cs)"
  by (simp add: assignNpcToWorkstation_def)

lemma assign_unknown_computer:
  assumes "workstationId p \<noteq> []"
    and "js_or (computerId p) (seat (workstationId p)) = Some cid"
    and "cid \<noteq> []"
    and "cs cid = None"
  shows "occupied (snd (assignNpcToWorkstation seat k p cs)) k = {}"
proof -
  have "release_computers k cs cid = None" by (simp add: release_computers_def assms(4))
  with assms(1-3) have "snd (assignNpcToWorkstation seat k p cs) = release_computers k cs"
    by (simp add: assignNpcToWorkstation_def Let_def)
  then show ?thesis by (simp add: occupied_release)
qed

text \<open>
  The claim as first stated fails. The workstation \<open>design-studio\<close> resolves to computer 1.
  A payload that names computer 3 itself seats the key at computer 3 only; a payload that
  names a computer the room does not have seats it nowhere. With an empty \<open>workstationId\<close>
  the operation returns before it seats the key, also when the payload names computer 3.
\<close>

theorem seat_override_counterexample:
  "sample_seats (workstationId (sample_payload ''a.x'' (Some ''3''))) = Some ''1''
   \<and> occupied (computers (fst (snd (upsertNpc sample_strings sample_seats ''t0''
         (sample_payload ''a.x'' (Some ''3'')) persist_all
         (onCreate sample_strings ''r1'' ''public'' None None, []))))) (getNpcKey ''a.x'') = {''3''}
   \<and> {''3''} \<noteq> {''1''}
   \<and> sample_seats (workstationId (sample_payload ''a.x'' (Some ''9''))) = Some ''1''
   \<and> occupied (computers (fst (snd (upsertNpc sample_strings sample_seats ''t0''
         (sample_payload ''a.x'' (Some ''9'')) persist_all
         (onCreate sample_strings ''r1'' ''public'' None None, []))))) (getNpcKey ''a.x'') = {}
   \<and> occupied (computers (fst (snd (upsertNpc sample_strings sample_seats ''t0''
         ((sample_payload ''a.x'' (Some ''3''))\<lparr> workstationId := [] \<rparr>) persist_all
         (onCreate sample_strings ''r1'' ''public'' None None, []))))) (getNpcKey ''a.x'') = {}"
proof -
  have a: "occupied (snd (assignNpcToWorkstation sample_seats (getNpcKey ''a.x'')
          (sample_payload ''a.x'' (Some ''3''))
          (computers (onCreate sample_strings ''r1'' ''public'' None None))))
          (getNpcKey ''a.x'') = {''3''}"
    by (rule assign_exact [where cid = "''3''"])
       (simp_all add: sample_payload_def js_or_def truthy_def onCreate_def Let_def seed_def)
  have b: "occupied (snd (assignNpcToWorkstation sample_seats (getNpcKey ''a.x'')
          (sample_payload ''a.x'' (Some ''9''))
          (computers (onCreate sample_strings ''r1'' ''public'' None None))))
          (getNpcKey ''a.x'') = {}"
    by (rule assign_unknown_computer [where cid = "''9''"])
       (simp_all add: sample_payload_def js_or_def truthy_def onCreate_def Let_def seed_def)
  have c: "occupied (snd (assignNpcToWorkstation sample_seats (getNpcKey ''a.x'')
          ((sample_payload ''a.x'' (Some ''3''))\<lparr> workstationId := [] \<rparr>)
          (computers (onCreate sample_strings ''r1'' ''public'' None None))))
          (getNpcKey ''a.x'') = {}"
    by (simp add: assign_no_workstation onCreate_def Let_def occupied_seed)
  from a b c show ?thesis
    by (simp add: upsertNpc_computers sample_seats_def sample_payload_def)
qed

theorem npc_seat_unique_witness:
  "(\<exists>c. occupied (computers (fst (run_ops sample_strings sample_seats
            [Upsert ''t0'' (sample_payload ''a.x'' None) persist_all]
            (onCreate sample_strings ''r1'' ''public'' None None, [])))) (getNpcKey ''a.x'')
          \<subseteq> {c})
   \<and> occupied (computers (fst (snd (upsertNpc sample_strings sample_seats ''t1''
         (sample_payload ''a.x'' (Some ''3'')) persist_all
         (run_ops sample_strings sample_seats
            [Upsert ''t0'' (sample_payload ''a.x'' None) persist_all]
            (onCreate sample_strings ''r1'' ''public'' None None, [])))))) (getNpcKey ''a.x'')
       = {''3''}"
  using npc_seat_unique [of sample_strings sample_seats
      "[Upsert ''t0'' (sample_payload ''a.x'' None) persist_all]"
      "''r1''" "''public''" None None "[]" "''a.x''"
      "sample_payload ''a.x'' (Some ''3'')" "''3''" "''t1''" persist_all]
  by (simp add: upsertNpc_computers assign_dom onCreate_dom sample_payload_def js_or_def
        truthy_def)

lemma upsertNpc_entry:
  "\<exists>asg. map_of (npcAssignments (fst (snd (upsertNpc lib seat now p opts st)))) (agentId p) = Some asg
         \<and> agentId asg = agentId p"
  by (simp add: upsertNpc_def Let_def update_conv' npc_payload.defs)

lemma removeNpc_existed:
  "fst (removeNpc a st) = (a \<in> dom (map_of (npcAssignments (fst st))))"
  by (auto simp: removeNpc_def Let_def)

lemma holds_agent:
  "map_of (npcAssignments rm) k = Some asg \<Longrightarrow> agentId asg = a
     \<Longrightarrow> list_ex (\<lambda>x. agentId x = a) (getNpcAssignments rm)"
  by (force simp: getNpcAssignments_def list_ex_iff dest: map_of_SomeD)

lemma findRoomWithAgent_finds:
  assumes "rm \<in> snd ` set dir" and "list_ex (\<lambda>x. agentId x = a) (getNpcAssignments rm)"
  shows "\<exists>r. findRoomWithAgent dir a = Some r \<and> r \<in> snd ` set dir
              \<and> list_ex (\<lambda>x. agentId x = a) (getNpcAssignments r)"
proof (cases "findRoomWithAgent dir a")
  case None
  with assms show ?thesis by (auto simp: findRoomWithAgent_def find_None_iff)
next
  case (Some r)
  then show ?thesis by (auto simp: findRoomWithAgent_def find_Some_iff)
qed

text \<open>
  Under the very string an agent was deployed with, \<open>removeNpc\<close> deletes the assignment
  and returns true, and \<open>findRoomWithAgent\<close> finds a room holding it.
\<close>

lemma agentId_same_string:
  "fst (removeNpc (agentId p) (snd (upsertNpc lib seat now p opts st)))
   \<and> agentId p \<notin> dom (map_of (npcAssignments (fst (snd
         (removeNpc (agentId p) (snd (upsertNpc lib seat now p opts st)))))))
   \<and> (fst (snd (upsertNpc lib seat now p opts st)) \<in> snd ` set dir \<longrightarrow>
        (\<exists>r. findRoomWithAgent dir (agentId p) = Some r \<and> r \<in> snd ` set dir
             \<and> list_ex (\<lambda>x. agentId x = agentId p) (getNpcAssignments r)))"
proof (intro conjI impI)
  show "fst (removeNpc (agentId p) (snd (upsertNpc lib seat now p opts st)))"
    by (simp add: removeNpc_existed upsertNpc_assignments)
  show "agentId p \<notin> dom (map_of (npcAssignments (fst (snd
         (removeNpc (agentId p) (snd (upsertNpc lib seat now p opts st)))))))"
    by (simp add: removeNpc_assignments)
next
  assume "fst (snd (upsertNpc lib seat now p opts st)) \<in> snd ` set dir"
  moreover have "list_ex (\<lambda>x. agentId x = agentId p)
      (getNpcAssignments (fst (snd (upsertNpc lib seat now p opts st))))"
    using upsertNpc_entry [of lib seat now p opts st] holds_agent by blast
  ultimately show "\<exists>r. findRoomWithAgent dir (agentId p) = Some r \<and> r \<in> snd ` set dir
             \<and> list_ex (\<lambda>x. agentId x = agentId p) (getNpcAssignments r)"
    by (rule findRoomWithAgent_finds)
qed


section \<open>Token verification\<close>

lemma split_on_nonempty: "split_on c s \<noteq> []"
  by (induction s) (auto split: list.splits)

lemma split_on_dot_free: "c \<notin> set s \<Longrightarrow> split_on c s = [s]"
  by (induction s) auto

lemma split_on_append:
  "c \<notin> set h \<Longrightarrow> split_on c (h @ c # rest) = h # split_on c rest"
  by (induction h) (auto split: list.splits)

lemma split_token:
  "dot_free h \<Longrightarrow> dot_free b \<Longrightarrow> dot_free s
     \<Longrightarrow> split_on (CHR ''.'') (token_of h b s) = [h, b, s]"
  by (simp add: token_of_def dot_free_def split_on_append split_on_dot_free)

lemma token_of_nonempty: "token_of h b s \<noteq> []"
  by (simp add: token_of_def)

lemma verify_signed:
  assumes "secret \<noteq> []" and "signed_with lib secret h b s" and "carries lib b payload"
  shows "verifyManagerToken lib now_ms (token_of h b s) secret
           = (if expired now_ms payload then Inl TokenExpired else Inr payload)"
  using assms
  by (simp add: verifyManagerToken_def token_of_nonempty split_token signed_with_def
        carries_def decodeBase64UrlSegment_def Let_def)

lemma verify_unsigned:
  assumes "dot_free h" "dot_free b" "dot_free s"
    and "Buffer_from_base64 lib (normalizeBase64Url s) \<noteq> createHmac_sha256 lib secret (h @ ''.'' @ b)"
  shows "verifyManagerToken lib now_ms (token_of h b s) secret
           = (if secret = [] then Inl SecretNotConfigured else Inl InvalidSignature)"
  using assms
  by (auto simp: verifyManagerToken_def token_of_nonempty split_token Let_def)

lemma split_first:
  "c \<notin> set xs \<Longrightarrow> c \<notin> set ys \<Longrightarrow> xs @ c # r = ys @ c # r' \<Longrightarrow> xs = ys \<and> r = r'"
proof (induction xs arbitrary: ys)
  case Nil
  then show ?case by (cases ys) auto
next
  case (Cons x xs)
  then show ?case by (cases ys) auto
qed

text \<open>A token has three parts exactly when its segments hold no dot.\<close>

lemma split_on_length: "length (split_on c s) = Suc (length (filter (\<lambda>a. a = c) s))"
  by (induction s) (auto split: list.splits)

lemma token_parts:
  "(length (split_on (CHR ''.'') (token_of h b s)) = 3) = (dot_free h \<and> dot_free b \<and> dot_free s)"
  by (auto simp: split_on_length token_of_def dot_free_def filter_empty_conv)

lemma three_parts:
  "length xs \<noteq> 3 \<Longrightarrow> (case xs of [x, y, z] \<Rightarrow> f x y z | _ \<Rightarrow> d) = d"
  by (auto split: list.splits)

lemma verify_format:
  assumes "\<not> (dot_free h \<and> dot_free b \<and> dot_free s)"
  shows "\<exists>err. verifyManagerToken lib now_ms (token_of h b s) secret = Inl err"
proof -
  from assms have "length (split_on (CHR ''.'') (token_of h b s)) \<noteq> 3"
    by (simp add: token_parts)
  then show ?thesis
    unfolding verifyManagerToken_def by (simp add: three_parts)
qed

lemma verify_rejects:
  assumes "Buffer_from_base64 lib (normalizeBase64Url s) \<noteq> createHmac_sha256 lib secret (h @ ''.'' @ b)"
  shows "\<exists>err. verifyManagerToken lib now_ms (token_of h b s) secret = Inl err"
proof (cases "dot_free h \<and> dot_free b \<and> dot_free s")
  case True
  with assms show ?thesis by (simp add: verify_unsigned)
next
  case False
  then show ?thesis by (rule verify_format)
qed

text \<open>
  Claim C3 (amended). For every non-empty secret and every payload with no \<open>exp\<close> field or
  an \<open>exp\<close> strictly in the future, \<open>verifyManagerToken\<close> applied to a token \<open>h.b.s\<close>
  whose body segment carries the payload and whose signature segment decodes to
  \<open>HMAC-SHA256(secret, h + "." + b)\<close> returns that payload. Given a token \<open>h.b.s\<close> signed
  with \<open>secret\<close>, \<open>verifyManagerToken\<close> throws
  \<^item> for every wrong secret under which HMAC-SHA256 gives the signing input another digest,
  \<^item> for every other header or body put in place of \<open>h\<close> and \<open>b\<close> (any strings, with or
    without dots), HMAC-SHA256 not colliding on the two signing inputs,
  \<^item> for every string put in place of \<open>s\<close> that decodes to other bytes than \<open>s\<close>.
\<close>

theorem token_roundtrip:
  "(secret \<noteq> [] \<longrightarrow> signed_with lib secret h b s \<longrightarrow> carries lib b payload \<longrightarrow>
      (tok_exp payload = None \<or> (\<exists>e. tok_exp payload = Some e \<and> of_int now_ms / 1000 < e)) \<longrightarrow>
      verifyManagerToken lib now_ms (token_of h b s) secret = Inr payload)
   \<and> (signed_with lib secret h b s \<longrightarrow>
      createHmac_sha256 lib secret' (h @ ''.'' @ b) \<noteq> createHmac_sha256 lib secret (h @ ''.'' @ b) \<longrightarrow>
      (\<exists>err. verifyManagerToken lib now_ms (token_of h b s) secret' = Inl err))
   \<and> (signed_with lib secret h b s \<longrightarrow> (h', b') \<noteq> (h, b) \<longrightarrow>
      collision_free (createHmac_sha256 lib secret) (h' @ ''.'' @ b') (h @ ''.'' @ b) \<longrightarrow>
      (\<exists>err. verifyManagerToken lib now_ms (token_of h' b' s) secret = Inl err))
   \<and> (signed_with lib secret h b s \<longrightarrow>
      Buffer_from_base64 lib (normalizeBase64Url s') \<noteq> Buffer_from_base64 lib (normalizeBase64Url s) \<longrightarrow>
      (\<exists>err. verifyManagerToken lib now_ms (token_of h b s') secret = Inl err))"
proof (intro conjI impI)
  assume "secret \<noteq> []" "signed_with lib secret h b s" "carries lib b payload"
    and e: "tok_exp payload = None \<or> (\<exists>e. tok_exp payload = Some e \<and> of_int now_ms / 1000 < e)"
  moreover from e have "\<not> expired now_ms payload"
    by (auto simp: expired_def)
  ultimately show "verifyManagerToken lib now_ms (token_of h b s) secret = Inr payload"
    by (simp add: verify_signed)
next
  assume "signed_with lib secret h b s"
    and "createHmac_sha256 lib secret' (h @ ''.'' @ b) \<noteq> createHmac_sha256 lib secret (h @ ''.'' @ b)"
  then have "Buffer_from_base64 lib (normalizeBase64Url s) \<noteq> createHmac_sha256 lib secret' (h @ ''.'' @ b)"
    by (simp add: signed_with_def)
  then show "\<exists>err. verifyManagerToken lib now_ms (token_of h b s) secret' = Inl err"
    by (rule verify_rejects)
next
  assume sg: "signed_with lib secret h b s" and ne: "(h', b') \<noteq> (h, b)"
    and cf: "collision_free (createHmac_sha256 lib secret) (h' @ ''.'' @ b') (h @ ''.'' @ b)"
  show "\<exists>err. verifyManagerToken lib now_ms (token_of h' b' s) secret = Inl err"
  proof (cases "dot_free h' \<and> dot_free b' \<and> dot_free s")
    case True
    with sg ne have "h' @ ''.'' @ b' \<noteq> h @ ''.'' @ b"
      using split_first [of "CHR ''.''" h' h b' b] by (auto simp: signed_with_def dot_free_def)
    with cf sg
    have "Buffer_from_base64 lib (normalizeBase64Url s) \<noteq> createHmac_sha256 lib secret (h' @ ''.'' @ b')"
      by (simp add: collision_free_def signed_with_def)
    then show ?thesis by (rule verify_rejects)
  next
    case False
    then show ?thesis by (rule verify_format)
  qed
next
  assume "signed_with lib secret h b s"
    and "Buffer_from_base64 lib (normalizeBase64Url s') \<noteq> Buffer_from_base64 lib (normalizeBase64Url s)"
  then have "Buffer_from_base64 lib (normalizeBase64Url s') \<noteq> createHmac_sha256 lib secret (h @ ''.'' @ b)"
    by (simp add: signed_with_def)
  then show "\<exists>err. verifyManagerToken lib now_ms (token_of h b s') secret = Inl err"
    by (rule verify_rejects)
qed

lemma sample_signed: "signed_with sample_crypto ''k1'' ''hd'' ''e30'' ''k103''"
  by (simp add: signed_with_def dot_free_def sample_crypto_def normalizeBase64Url_def
        zero_padded_def)

lemma sample_carries: "carries sample_crypto ''e30'' plain_payload"
  by (simp add: carries_def sample_crypto_def normalizeBase64Url_def BASE64_URL_REGEXP_def base64url_char_def)

theorem token_roundtrip_witness:
  "verifyManagerToken sample_crypto 1000 (token_of ''hd'' ''e30'' ''k103'') ''k1'' = Inr plain_payload
   \<and> (\<exists>err. verifyManagerToken sample_crypto 1000 (token_of ''hd'' ''e30'' ''k103'') ''zz'' = Inl err)
   \<and> (\<exists>err. verifyManagerToken sample_crypto 1000 (token_of ''hd'' ''e31'' ''k103'') ''k1'' = Inl err)
   \<and> (\<exists>err. verifyManagerToken sample_crypto 1000 (token_of ''hd'' ''e30'' ''k104'') ''k1'' = Inl err)"
  using token_roundtrip [of "''k1''" sample_crypto "''hd''" "''e30''" "''k103''" plain_payload 1000
      "''zz''" "''hd''" "''e31''" "''k104''"] sample_signed sample_carries
  by (simp add: plain_payload_def sample_crypto_def normalizeBase64Url_def zero_padded_def
        collision_free_def)

text \<open>
  The claim as first stated fails in three ways. A token signed with the empty secret is
  refused before its signature is looked at. A signature segment with a padding
  character appended is another string and decodes to the same bytes, so the tampered
  token verifies. A secret with a zero byte appended is another secret and gives the
  same digest, so the token verifies under the wrong secret.
\<close>

theorem tampered_token_counterexample:
  "signed_with sample_crypto [] ''hd'' ''e30'' ''0003''
   \<and> carries sample_crypto ''e30'' plain_payload
   \<and> tok_exp plain_payload = None
   \<and> verifyManagerToken sample_crypto 1000 (token_of ''hd'' ''e30'' ''0003'') []
        = Inl SecretNotConfigured
   \<and> signed_with sample_crypto ''k1'' ''hd'' ''e30'' ''k103''
   \<and> ''k103='' \<noteq> ''k103''
   \<and> verifyManagerToken sample_crypto 1000 (token_of ''hd'' ''e30'' ''k103='') ''k1''
        = Inr plain_payload
   \<and> ''k1'' @ [CHR 0x00] \<noteq> ''k1''
   \<and> verifyManagerToken sample_crypto 1000 (token_of ''hd'' ''e30'' ''k103'') (''k1'' @ [CHR 0x00])
        = Inr plain_payload"
  by (simp add: signed_with_def dot_free_def sample_crypto_def normalizeBase64Url_def
        carries_def BASE64_URL_REGEXP_def base64url_char_def plain_payload_def
        verifyManagerToken_def token_of_def decodeBase64UrlSegment_def expired_def
        zero_padded_def)

lemma expiry_iff:
  assumes "secret \<noteq> []" and "signed_with lib secret h b s" and "carries lib b payload"
  shows "(verifyManagerToken lib now_ms (token_of h b s) secret = Inl TokenExpired)
           = (\<exists>e. tok_exp payload = Some e \<and> e \<noteq> 0 \<and> of_int now_ms / 1000 > e)"
  using assms by (auto simp: verify_signed expired_def split: option.splits)

text \<open>
  Claim C9. A token whose signature verifies and whose payload has \<open>exp\<close> present and
  smaller than the current time in seconds must fail as expired. With \<open>exp = 0\<close> the
  verifier returns the payload instead: the presence test \<open>payload.exp && ...\<close> reads
  the number zero as absent.
\<close>

theorem exp_zero_accepted:
  "signed_with sample_crypto ''k1'' ''hd'' ''exp0'' ''k10p''
   \<and> carries sample_crypto ''exp0'' (plain_payload\<lparr>tok_exp := Some 0\<rparr>)
   \<and> (of_int 1700000000000 :: rat) / 1000 > 0
   \<and> verifyManagerToken sample_crypto 1700000000000 (token_of ''hd'' ''exp0'' ''k10p'') ''k1''
        = Inr (plain_payload\<lparr>tok_exp := Some 0\<rparr>)"
  by (simp add: signed_with_def dot_free_def sample_crypto_def normalizeBase64Url_def
        carries_def BASE64_URL_REGEXP_def base64url_char_def plain_payload_def
        verifyManagerToken_def token_of_def decodeBase64UrlSegment_def expired_def
        zero_padded_def)

lemma exp_five: "verifyManagerToken sample_crypto 1700000000000 (token_of ''hd'' ''exp5'' ''k15p'') ''k1''
        = Inl TokenExpired"
  by (simp add: signed_with_def dot_free_def sample_crypto_def normalizeBase64Url_def
        carries_def BASE64_URL_REGEXP_def base64url_char_def plain_payload_def
        verifyManagerToken_def token_of_def decodeBase64UrlSegment_def expired_def
        zero_padded_def)


section \<open>Secret resolution order\<close>

lemma truthy_None [simp]: "truthy None = False"
  by (simp add: truthy_def)

lemma truthy_Some [simp]: "truthy (Some s) = (s \<noteq> [])"
  by (simp add: truthy_def)

lemma first_truthy_None: "(first_truthy vs = None) = (\<forall>v \<in> set vs. \<not> truthy v)"
proof (induction vs)
  case Nil
  then show ?case by simp
next
  case (Cons v vs)
  then show ?case by (cases v) auto
qed

lemma first_truthy_pick:
  "i < length vs \<Longrightarrow> truthy (vs ! i) \<Longrightarrow> (\<forall>j<i. \<not> truthy (vs ! j))
     \<Longrightarrow> first_truthy vs = vs ! i"
proof (induction vs arbitrary: i)
  case Nil
  then show ?case by simp
next
  case (Cons v vs)
  show ?case
  proof (cases i)
    case 0
    with Cons.prems show ?thesis by simp
  next
    case (Suc k)
    with Cons.prems have "\<not> truthy v" by auto
    moreover have "first_truthy vs = vs ! k"
      using Cons.prems Suc by (intro Cons.IH) auto
    ultimately show ?thesis using Suc by simp
  qed
qed

lemma first_truthy_truthy: "first_truthy vs = Some v \<Longrightarrow> v \<noteq> []"
  by (induction vs) (auto split: if_splits)

lemma static_wins:
  assumes "staticSecret e = Some v"
  shows "resolvePresenceSecret lib e now cache agent office
           = (Some \<lparr> entry_secret = v, entry_source = Static, entry_timestamp = now \<rparr>, cache, [])"
  using assms by (simp add: resolvePresenceSecret_def)

lemma static_pick:
  assumes "i < length static_vars" and "truthy (process_env e (static_vars ! i))"
    and "\<forall>j<i. \<not> truthy (process_env e (static_vars ! j))"
  shows "staticSecret e = process_env e (static_vars ! i)"
  unfolding staticSecret_def
  using first_truthy_pick [of i "map (process_env e) static_vars"] assms by simp

lemma remote_tiers:
  assumes "staticSecret e = None" and "resolvedOfficeId e office = Some oid"
    and "\<not> (case cache (oid @ '':'' @ toLowerCase lib agent) of
              Some c \<Rightarrow> now - entry_timestamp c < SECRET_CACHE_TTL_MS e | None \<Rightarrow> False)"
  shows "fst (resolvePresenceSecret lib e now cache agent office)
           = (case first_truthy [loadSecretFromTenantKeys e oid,
                                 fetchPresenceSecretFromRegistry e agent oid] of
                None \<Rightarrow> None
              | Some v \<Rightarrow> Some \<lparr> entry_secret = v,
                   entry_source = (if truthy (loadSecretFromTenantKeys e oid) then TenantKeys else Registry),
                   entry_timestamp = now \<rparr>)"
  using assms
  by (auto simp: resolvePresenceSecret_def Let_def split: option.splits)

lemma trace_shape:
  "snd (snd (resolvePresenceSecret lib e now cache agent office)) \<noteq> [] \<Longrightarrow> staticSecret e = None"
  by (auto simp: resolvePresenceSecret_def Let_def split: option.splits if_splits)

lemma registry_after_tenant:
  "RegistryLookup a oid \<in> set (snd (snd (resolvePresenceSecret lib e now cache agent office)))
     \<Longrightarrow> \<not> truthy (loadSecretFromTenantKeys e oid)
         \<and> TenantKeysLookup oid \<in> set (snd (snd (resolvePresenceSecret lib e now cache agent office)))"
  by (auto simp: resolvePresenceSecret_def Let_def split: option.splits if_splits)

text \<open>A tenant-keys lookup happens only past the static tier, the office and the cache.\<close>

lemma tenant_lookup_reached:
  "TenantKeysLookup oid \<in> set (snd (snd (resolvePresenceSecret lib e now cache agent office)))
     \<Longrightarrow> staticSecret e = None \<and> resolvedOfficeId e office = Some oid
         \<and> \<not> (case cache (oid @ '':'' @ toLowerCase lib agent) of
                 Some c \<Rightarrow> now - entry_timestamp c < SECRET_CACHE_TTL_MS e | None \<Rightarrow> False)"
  by (auto simp: resolvePresenceSecret_def Let_def split: option.splits if_splits)

text \<open>
  Claim C10 (amended). If at least one of SKYOFFICE_PRESENCE_SHARED_SECRET,
  SKYOFFICE_PRESENCE_SECRET, PRESENCE_SHARED_SECRET, SHARED_SECRET is set to a non-empty
  value, \<open>resolvePresenceSecret\<close> returns the first non-empty one in that order with
  source \<open>static\<close>, leaves the cache alone and performs no lookup. A lookup is performed
  only when none of the four holds a non-empty value; the registry credential is requested
  only after the tenant-keys tier was consulted and gave nothing; and whenever the
  tenant-keys tier is consulted, the first non-empty result of the tenant-keys tier and
  then the registry tier is returned with its source tag.
\<close>

theorem static_secret_first:
  "(i < length static_vars \<longrightarrow> truthy (process_env e (static_vars ! i)) \<longrightarrow>
      (\<forall>j<i. \<not> truthy (process_env e (static_vars ! j))) \<longrightarrow>
      resolvePresenceSecret lib e now cache agent office
        = (Some \<lparr> entry_secret = the (process_env e (static_vars ! i)), entry_source = Static,
                   entry_timestamp = now \<rparr>, cache, []))
   \<and> (snd (snd (resolvePresenceSecret lib e now cache agent office)) \<noteq> [] \<longrightarrow>
        (\<forall>n \<in> set static_vars. \<not> truthy (process_env e n)))
   \<and> (RegistryLookup a oid' \<in> set (snd (snd (resolvePresenceSecret lib e now cache agent office))) \<longrightarrow>
        \<not> truthy (loadSecretFromTenantKeys e oid')
        \<and> TenantKeysLookup oid' \<in> set (snd (snd (resolvePresenceSecret lib e now cache agent office))))
   \<and> (TenantKeysLookup oid \<in> set (snd (snd (resolvePresenceSecret lib e now cache agent office))) \<longrightarrow>
        fst (resolvePresenceSecret lib e now cache agent office)
           = (case first_truthy [loadSecretFromTenantKeys e oid,
                                 fetchPresenceSecretFromRegistry e agent oid] of
                None \<Rightarrow> None
              | Some v \<Rightarrow> Some \<lparr> entry_secret = v,
                   entry_source = (if truthy (loadSecretFromTenantKeys e oid) then TenantKeys else Registry),
                   entry_timestamp = now \<rparr>))"
proof (intro conjI impI)
  assume i: "i < length static_vars" "truthy (process_env e (static_vars ! i))"
    "\<forall>j<i. \<not> truthy (process_env e (static_vars ! j))"
  then have "staticSecret e = process_env e (static_vars ! i)" by (rule static_pick)
  moreover from i(2) obtain v where "process_env e (static_vars ! i) = Some v"
    by (cases "process_env e (static_vars ! i)") auto
  ultimately show "resolvePresenceSecret lib e now cache agent office
        = (Some \<lparr> entry_secret = the (process_env e (static_vars ! i)), entry_source = Static,
                   entry_timestamp = now \<rparr>, cache, [])"
    by (simp add: static_wins)
next
  assume "snd (snd (resolvePresenceSecret lib e now cache agent office)) \<noteq> []"
  then have "staticSecret e = None" by (rule trace_shape)
  then show "\<forall>n \<in> set static_vars. \<not> truthy (process_env e n)"
    by (simp add: staticSecret_def first_truthy_None)
next
  assume r: "RegistryLookup a oid' \<in> set (snd (snd (resolvePresenceSecret lib e now cache agent office)))"
  from registry_after_tenant [OF r]
  show "\<not> truthy (loadSecretFromTenantKeys e oid')"
    and "TenantKeysLookup oid' \<in> set (snd (snd (resolvePresenceSecret lib e now cache agent office)))"
    by simp_all
next
  assume t: "TenantKeysLookup oid \<in> set (snd (snd (resolvePresenceSecret lib e now cache agent office)))"
  from tenant_lookup_reached [OF t]
  have "staticSecret e = None" and "resolvedOfficeId e office = Some oid"
    and "\<not> (case cache (oid @ '':'' @ toLowerCase lib agent) of
              Some c \<Rightarrow> now - entry_timestamp c < SECRET_CACHE_TTL_MS e | None \<Rightarrow> False)"
    by simp_all
  then show "fst (resolvePresenceSecret lib e now cache agent office)
           = (case first_truthy [loadSecretFromTenantKeys e oid,
                                 fetchPresenceSecretFromRegistry e agent oid] of
                None \<Rightarrow> None
              | Some v \<Rightarrow> Some \<lparr> entry_secret = v,
                   entry_source = (if truthy (loadSecretFromTenantKeys e oid) then TenantKeys else Registry),
                   entry_timestamp = now \<rparr>)"
    by (rule remote_tiers)
qed

lemma remote_trace:
  "snd (snd (resolvePresenceSecret sample_strings remote_env 1000 Map.empty ''ada'' (Some ''o1'')))
     = [TenantKeysLookup ''o1'', RegistryLookup ''ada'' ''o1'']"
  by (simp add: resolvePresenceSecret_def staticSecret_def static_vars_def remote_env_def
        resolvedOfficeId_def Let_def)

theorem static_secret_first_witness:
  "resolvePresenceSecret sample_strings static_env 1000 Map.empty ''ada'' (Some ''o1'')
     = (Some \<lparr> entry_secret = ''s3'', entry_source = Static, entry_timestamp = 1000 \<rparr>, Map.empty, [])
   \<and> snd (snd (resolvePresenceSecret sample_strings remote_env 1000 Map.empty ''ada'' (Some ''o1'')))
     = [TenantKeysLookup ''o1'', RegistryLookup ''ada'' ''o1'']
   \<and> map (process_env remote_env) static_vars = [None, None, None, None]
   \<and> fst (resolvePresenceSecret sample_strings remote_env 1000 Map.empty ''ada'' (Some ''o1''))
     = Some \<lparr> entry_secret = ''k1'', entry_source = Registry, entry_timestamp = 1000 \<rparr>"
  using static_secret_first [where i = 2 and e = static_env and lib = sample_strings and now = 1000
      and cache = Map.empty and agent = "''ada''" and office = "Some ''o1''" and a = "''ada''"
      and oid' = "''o1''" and oid = "''o1''"]
    static_secret_first [where i = 2 and e = remote_env and lib = sample_strings and now = 1000
      and cache = Map.empty and agent = "''ada''" and office = "Some ''o1''" and a = "''ada''"
      and oid' = "''o1''" and oid = "''o1''"]
  by (simp add: remote_trace static_vars_def static_env_def nth_Cons' less_Suc_eq
        all_conj_distrib)
   (simp add: remote_env_def)

text \<open>
  The claim as first stated fails where a variable is set to the empty string, which the
  \<open>||\<close> chain passes over like an unset one. With the first variable empty and the last
  one \<open>s4\<close>, the value returned is \<open>s4\<close>, not that of the first variable that is set. With
  only an empty variable set, the tenant-keys tier is consulted and its secret returned.
  And a registry credential that is the empty string is not null, yet does not win:
  nothing is returned.
\<close>

theorem empty_variable_counterexample:
  "process_env empty_first_env ''SKYOFFICE_PRESENCE_SHARED_SECRET'' = Some []
   \<and> resolvePresenceSecret sample_strings empty_first_env 1000 Map.empty ''ada'' (Some ''o1'')
       = (Some \<lparr> entry_secret = ''s4'', entry_source = Static, entry_timestamp = 1000 \<rparr>,
          Map.empty, [])
   \<and> process_env only_empty_env ''SKYOFFICE_PRESENCE_SHARED_SECRET'' = Some []
   \<and> fst (resolvePresenceSecret sample_strings only_empty_env 1000 Map.empty ''ada'' (Some ''o1''))
       = Some \<lparr> entry_secret = ''tenant'', entry_source = TenantKeys, entry_timestamp = 1000 \<rparr>
   \<and> snd (snd (resolvePresenceSecret sample_strings only_empty_env 1000 Map.empty ''ada''
         (Some ''o1''))) = [TenantKeysLookup ''o1'']
   \<and> fetchPresenceSecretFromRegistry empty_registry_env ''ada'' ''o1'' = Some []
   \<and> resolvePresenceSecret sample_strings empty_registry_env 1000 Map.empty ''ada'' (Some ''o1'')
       = (None, Map.empty, [TenantKeysLookup ''o1'', RegistryLookup ''ada'' ''o1''])"
  by (simp add: resolvePresenceSecret_def staticSecret_def static_vars_def empty_first_env_def
        only_empty_env_def empty_registry_env_def resolvedOfficeId_def Let_def)


section \<open>Handshake\<close>
























text \<open>
  Claim C1. Rooms \<open>alpha\<close> and \<open>beta\<close> are live, room \<open>alpha\<close> has no assignment for the
  agent, and an NPC handshake asking for namespace \<open>beta\<close> reaches room \<open>alpha\<close>. The
  claim expects status 410 with the room id of \<open>beta\<close>. \<open>validateNpcHandshake\<close> on its own
  answers so, but \<open>onAuth\<close> throws 403 \<open>Namespace mismatch\<close> before it calls it.
\<close>

theorem redirect_preempted:
  "onAuth sample_env (npc_options ''beta'' (JString ''ada'') (JString ''tok'')) fresh_client alpha_state
     = (Inl (ServerError 403 ''Namespace mismatch''), alpha_state)
   \<and> map_of (npcAssignments (this_room alpha_state)) ''ada'' = None
   \<and> map_option room_roomId (getRoomByNamespaceSlug sample_strings alpha_state ''beta'')
       = Some ''room-beta''
   \<and> fst (validateNpcHandshake sample_env (npc_options ''beta'' (JString ''ada'') (JString ''tok''))
           fresh_client alpha_state)
     = Inl (ServerError 410 (json_roomId ''room-beta''))"
  by (simp add: onAuth_def namespace_mismatch_def npc_options_def trimmed_string_def alpha_state_def
        alpha_room_def beta_room_def onCreate_def Let_def sample_env_def sample_strings_def
        is_space_def
        lower_char_def upper_letters_def lower_letters_def validateNpcHandshake_def load_assignments_def ensureNpcAssignmentsLoaded_def
        getRoomByNamespaceSlug_def assignment_missing_def expectedNamespaceLower_def
        currentNamespaceLower_def)

text \<open>
  Claim C4. An agent is deployed in room \<open>alpha\<close> under the identifier \<open>Ada\<close>.
  \<open>removeNpc\<close> and \<open>findRoomWithAgent\<close> with \<open>ada\<close>, equal to \<open>Ada\<close> up to letter case,
  must remove the assignment and find the room. They compare the strings as they are:
  \<open>removeNpc\<close> returns false and leaves the assignment in place, \<open>findRoomWithAgent\<close>
  finds nothing. The handshake lowercases the identifier it is given, so the agent's own
  join with \<open>Ada\<close> is answered 404 although its assignment is there.
\<close>

theorem agentId_case_mismatch:
  "toLowerCase sample_strings ''Ada'' = toLowerCase sample_strings ''ada''
   \<and> ''Ada'' \<in> dom (map_of (npcAssignments (this_room (deployed_state ''Ada''))))
   \<and> \<not> fst (removeNpc ''ada'' (this_room (deployed_state ''Ada''), []))
   \<and> ''Ada'' \<in> dom (map_of (npcAssignments (fst (snd
         (removeNpc ''ada'' (this_room (deployed_state ''Ada''), []))))))
   \<and> findRoomWithAgent [(''room-alpha'', this_room (deployed_state ''Ada''))] ''ada'' = None
   \<and> fst (onAuth sample_env (npc_options ''alpha'' (JString ''Ada'') (JString ''tok''))
            fresh_client (deployed_state ''Ada''))
       = Inl (ServerError 404
           (''NPC assignment not found for agent '' @ [CHR 0x27] @ ''ada'' @ [CHR 0x27]))"
  by (simp add: deployed_state_def alpha_state_def alpha_room_def sample_strings_def
        lower_char_def upper_letters_def lower_letters_def is_space_def removeNpc_existed
        removeNpc_assignments upsertNpc_assignments onCreate_def Let_def sample_payload_def
        findRoomWithAgent_def getNpcAssignments_def upsertNpc_def npc_payload.defs
        onAuth_def namespace_mismatch_def password_check_def npc_options_def
        trimmed_string_def sample_env_def validateNpcHandshake_def load_assignments_def
        ensureNpcAssignmentsLoaded_def assignment_missing_def expectedNamespaceLower_def
        currentNamespaceLower_def update_conv')

text \<open>
  The sample string library has the properties of the JavaScript methods that the
  statements below rely on.
\<close>

lemma lower_char_changed:
  assumes "lower_char c \<noteq> c"
  shows "c \<in> set upper_letters \<and> lower_char c \<in> set lower_letters"
proof (cases "map_of (zip upper_letters lower_letters) c")
  case None
  with assms show ?thesis by (simp add: lower_char_def)
next
  case (Some d)
  then have "(c, d) \<in> set (zip upper_letters lower_letters)" by (rule map_of_SomeD)
  then have "c \<in> set upper_letters" and "d \<in> set lower_letters"
    by (auto dest: set_zip_leftD set_zip_rightD)
  with Some show ?thesis by (simp add: lower_char_def)
qed

lemma letters_not_space: "c \<in> set upper_letters \<union> set lower_letters \<Longrightarrow> \<not> is_space c"
  by (auto simp: upper_letters_def lower_letters_def is_space_def)

lemma is_space_lower: "is_space (lower_char c) = is_space c"
proof (cases "lower_char c = c")
  case True
  then show ?thesis by simp
next
  case False
  from lower_char_changed [OF False] show ?thesis
    using letters_not_space [of c] letters_not_space [of "lower_char c"] by simp
qed

lemma dropWhile_space_lower:
  "dropWhile is_space (map lower_char s) = map lower_char (dropWhile is_space s)"
  by (induction s) (simp_all add: is_space_lower)

lemma dropWhile_rev_stable:
  assumes "u = [] \<or> \<not> P (hd u)"
  shows "dropWhile P (rev (dropWhile P (rev u))) = rev (dropWhile P (rev u))"
proof (cases "dropWhile P (rev u) = []")
  case True
  then show ?thesis by (metis dropWhile.simps(1) rev.simps(1))
next
  case False
  have "rev u = takeWhile P (rev u) @ dropWhile P (rev u)" by simp
  then have "u = rev (dropWhile P (rev u)) @ rev (takeWhile P (rev u))"
    by (metis rev_append rev_rev_ident)
  with False have "hd (rev (dropWhile P (rev u))) = hd u" and "u \<noteq> []"
    by (metis hd_append2 rev_is_Nil_conv, metis Nil_is_append_conv rev_is_Nil_conv)
  with assms have "\<not> P (hd (rev (dropWhile P (rev u))))" by simp
  with False show ?thesis by (cases "rev (dropWhile P (rev u))") auto
qed

lemma sample_trim_lower:
  "trim sample_strings (toLowerCase sample_strings s)
     = toLowerCase sample_strings (trim sample_strings s)"
proof -
  have "rev (map lower_char s) = map lower_char (rev s)" for s
    by (simp add: rev_map)
  then show ?thesis
    by (simp add: sample_strings_def dropWhile_space_lower)
qed

lemma sample_trim_idem: "trim sample_strings (trim sample_strings s) = trim sample_strings s"
proof -
  let ?u = "dropWhile is_space s"
  have "?u = [] \<or> \<not> is_space (hd ?u)"
    using hd_dropWhile [of is_space s] by blast
  then have "dropWhile is_space (rev (dropWhile is_space (rev ?u))) = rev (dropWhile is_space (rev ?u))"
    by (rule dropWhile_rev_stable)
  then show ?thesis by (simp add: sample_strings_def)
qed

lemma sample_lower_empty: "toLowerCase sample_strings s = [] \<Longrightarrow> s = []"
  by (simp add: sample_strings_def)

lemma onCreate_slug_trimmed:
  assumes "\<And>x. trim lib (toLowerCase lib (trim lib x)) = toLowerCase lib (trim lib x)"
  shows "\<exists>s. room_namespaceSlug (onCreate lib rid nm slug pw) = Some s \<and> trim lib s = s"
  by (simp add: onCreate_def Let_def assms)

lemma no_redirect_condition:
  assumes "\<And>x. toLowerCase lib x = [] \<Longrightarrow> x = []"
    and "\<not> namespace_mismatch lib opts rm"
    and "room_namespaceSlug rm = Some s" and "trim lib s = s"
  shows "\<not> (expectedNamespaceLower lib opts rm \<noteq> None \<and> currentNamespaceLower lib rm \<noteq> None
            \<and> expectedNamespaceLower lib opts rm \<noteq> currentNamespaceLower lib rm)"
  using assms(2-4) assms(1)
  by (auto simp: namespace_mismatch_def expectedNamespaceLower_def currentNamespaceLower_def
        Let_def trimmed_string_def split: jsval.splits if_splits)

lemma verify_handshake_no_redirect:
  "fst (verify_handshake env ex c token a asg st) \<noteq> Inl (ServerError 410 msg)"
proof -
  have p: "payload_mismatch lib a ex asg pl \<noteq> Some (ServerError 410 msg)" for pl lib
    by (simp add: payload_mismatch_def)
  show ?thesis
    unfolding verify_handshake_def Let_def
    using p by (auto split: option.splits sum.splits)
qed

lemma validate_no_redirect:
  assumes "\<not> (expectedNamespaceLower (strings env) opts (this_room st) \<noteq> None
              \<and> currentNamespaceLower (strings env) (this_room st) \<noteq> None
              \<and> expectedNamespaceLower (strings env) opts (this_room st)
                  \<noteq> currentNamespaceLower (strings env) (this_room st))"
  shows "fst (validateNpcHandshake env opts c st) \<noteq> Inl (ServerError 410 msg)"
proof -
  have m: "assignment_missing (strings env) opts (this_room st) st2 a \<noteq> ServerError 410 msg"
    for st2 a
    using assms by (auto simp: assignment_missing_def)
  show ?thesis
    unfolding validateNpcHandshake_def Let_def
    using m verify_handshake_no_redirect
    by (auto split: option.splits)
qed

text \<open>
  For a room whose namespace slug is trimmed, as \<open>onCreate\<close> leaves it, no join makes
  \<open>onAuth\<close> answer 410. Of the string library this uses that only the empty string has
  an empty lower case.
\<close>

lemma onAuth_never_redirects:
  assumes "\<And>x. toLowerCase (strings env) x = [] \<Longrightarrow> x = []"
    and "room_namespaceSlug (this_room st) = Some s" and "trim (strings env) s = s"
  shows "fst (onAuth env opts c st) \<noteq> Inl (ServerError 410 msg)"
proof (cases "namespace_mismatch (strings env) opts (this_room st)")
  case True
  then show ?thesis by (simp add: onAuth_def)
next
  case False
  from no_redirect_condition [OF assms(1) False assms(2,3)]
  have "fst (validateNpcHandshake env opts c st) \<noteq> Inl (ServerError 410 msg)"
    by (rule validate_no_redirect)
  moreover have "password_check env opts (this_room st) \<noteq> Some (ServerError 410 msg)"
    by (simp add: password_check_def split: option.splits)
  ultimately show ?thesis using False
    by (auto simp: onAuth_def split: option.splits)
qed

text \<open>With the sample string library, no join to a room made by \<open>onCreate\<close> is answered 410.\<close>

lemma sample_room_never_redirects:
  assumes "strings env = sample_strings"
    and "this_room st = onCreate sample_strings rid nm slug pw"
  shows "fst (onAuth env opts c st) \<noteq> Inl (ServerError 410 msg)"
proof -
  have "trim sample_strings (toLowerCase sample_strings (trim sample_strings x))
      = toLowerCase sample_strings (trim sample_strings x)" for x
    by (simp add: sample_trim_lower sample_trim_idem)
  from onCreate_slug_trimmed [of sample_strings, OF this]
  obtain s where "room_namespaceSlug (onCreate sample_strings rid nm slug pw) = Some s"
    and "trim sample_strings s = s"
    by blast
  with assms have "room_namespaceSlug (this_room st) = Some s" and "trim (strings env) s = s"
    by simp_all
  moreover have "toLowerCase (strings env) x = [] \<Longrightarrow> x = []" for x
    using assms(1) sample_lower_empty by simp
  ultimately show ?thesis using onAuth_never_redirects [of env st s opts c msg] by blast
qed


section \<open>Precomputed grid validation\<close>

lemma load_accepted:
  assumes "loadPrecomputedGrid sha (Some data) expected = Inr (Some m)"
  shows "\<exists>row0 rest. sc_grid data = Some (row0 # rest)
           \<and> length (row_cells row0) \<noteq> 0
           \<and> list_all (row_fits (length (row_cells row0))) (row0 # rest)
           \<and> check_expected (length (row_cells row0)) (length (row0 # rest)) data expected = None
           \<and> \<not> (truthy (sc_gridHash data)
                 \<and> sc_gridHash data \<noteq> Some (computeGridHash sha (normalise_rows (row0 # rest))))
           \<and> grid m = normalise_rows (row0 # rest)
           \<and> width m = int (length (row_cells row0))
           \<and> height m = int (length (row0 # rest))"
  using assms
  by (auto simp: loadPrecomputedGrid_def Let_def split: option.splits list.splits if_splits)

lemma check_expected_None:
  assumes "check_expected w h data (Some ex) = None"
  shows "int w = ex_width ex \<and> int h = ex_height ex
     \<and> (\<forall>t. sc_tileWidth data = Some t \<longrightarrow> t = ex_tileWidth ex)
     \<and> (\<forall>t. sc_tileHeight data = Some t \<longrightarrow> t = ex_tileHeight ex)
     \<and> (truthy (ex_mapHash ex) \<longrightarrow> sc_mapHash data = ex_mapHash ex)"
  using assms
  by (auto simp: check_expected_def split: if_splits option.splits)

lemma grid_hash_checked:
  assumes "truthy (sc_gridHash data)"
    and "sc_grid data = Some rows"
    and "sc_gridHash data \<noteq> Some (computeGridHash sha (normalise_rows rows))"
  shows "\<exists>err. loadPrecomputedGrid sha (Some data) expected = Inl err"
  using assms
  by (auto simp: loadPrecomputedGrid_def Let_def split: option.splits list.splits)

lemma load_present: "loadPrecomputedGrid sha (Some data) expected \<noteq> Inr None"
  by (auto simp: loadPrecomputedGrid_def Let_def split: option.splits list.splits)

lemma map_hash_checked:
  assumes "truthy (ex_mapHash ex)" and "sc_mapHash data \<noteq> ex_mapHash ex"
  shows "\<exists>err. loadPrecomputedGrid sha (Some data) (Some ex) = Inl err"
proof (cases "loadPrecomputedGrid sha (Some data) (Some ex)")
  case (Inl err)
  then show ?thesis by blast
next
  case (Inr r)
  with load_present [of sha data "Some ex"] obtain m where "r = Some m" by (cases r) auto
  with Inr have "loadPrecomputedGrid sha (Some data) (Some ex) = Inr (Some m)" by simp
  from load_accepted [OF this] obtain w h where "check_expected w h data (Some ex) = None"
    by blast
  with assms show ?thesis by (auto simp: check_expected_def split: if_splits)
qed

text \<open>
  \<open>JSON.stringify\<close> tells grids of zeros and ones apart: with the commas taken out, what
  is left of the text is the rows, each between its brackets.
\<close>

lemma filter_join:
  "filter (\<lambda>c. c \<noteq> k) (join_with [k] ss) = concat (map (filter (\<lambda>c. c \<noteq> k)) ss)"
  by (induction "[k]" ss rule: join_with.induct) simp_all

lemma cells_text:
  "filter (\<lambda>c. c \<noteq> CHR '','') (join_with '','' (map stringify_cell r))
     = map (\<lambda>v. if v = 0 then CHR ''0'' else CHR ''1'') r"
  by (induction r) (simp_all add: filter_join stringify_cell_def)

lemma grid_text:
  "filter (\<lambda>c. c \<noteq> CHR '','') (stringify_grid g)
     = CHR ''['' # concat (map (\<lambda>r. CHR ''['' #
          map (\<lambda>v. if v = 0 then CHR ''0'' else CHR ''1'') r @ '']'') g) @ '']''"
proof -
  have "concat (map (filter (\<lambda>c. c \<noteq> CHR '','')) (map (\<lambda>r. ''['' @ join_with '','' (map stringify_cell r) @ '']'') g))
      = concat (map (\<lambda>r. CHR ''['' # map (\<lambda>v. if v = 0 then CHR ''0'' else CHR ''1'') r @ '']'') g)"
    by (induction g) (simp_all add: cells_text)
  then show ?thesis by (simp add: stringify_grid_def filter_join)
qed

lemma bits_text_inj:
  assumes "\<forall>v \<in> set r. v = 0 \<or> v = 1" and "\<forall>v \<in> set r'. v = 0 \<or> v = 1"
    and "map (\<lambda>v. if v = 0 then CHR ''0'' else CHR ''1'') r
           = map (\<lambda>v. if v = 0 then CHR ''0'' else CHR ''1'') (r' :: int list)"
  shows "r = r'"
  using assms
proof (induction r arbitrary: r')
  case Nil
  then show ?case by simp
next
  case (Cons a r)
  then obtain b t where r': "r' = b # t" by (cases r') auto
  with Cons.prems have "a = b" by (auto split: if_splits)
  moreover from Cons.prems r' have "r = t" by (intro Cons.IH) auto
  ultimately show ?case using r' by simp
qed

lemma rows_text_inj:
  assumes "\<forall>r \<in> set g. \<forall>v \<in> set r. v = 0 \<or> v = 1"
    and "\<forall>r \<in> set g'. \<forall>v \<in> set r. v = 0 \<or> v = 1"
    and "concat (map (\<lambda>r. CHR ''['' # map (\<lambda>v. if v = 0 then CHR ''0'' else CHR ''1'') r @ '']'') g)
       = concat (map (\<lambda>r. CHR ''['' # map (\<lambda>v. if v = 0 then CHR ''0'' else CHR ''1'') r @ '']'')
           (g' :: int list list))"
  shows "g = g'"
  using assms
proof (induction g arbitrary: g')
  case Nil
  then show ?case by (cases g') auto
next
  case (Cons r g)
  then obtain r' t where g': "g' = r' # t" by (cases g') auto
  let ?ch = "\<lambda>v::int. if v = 0 then CHR ''0'' else CHR ''1''"
  let ?flat = "\<lambda>g. concat (map (\<lambda>r. CHR ''['' # map ?ch r @ '']'') g)"
  from Cons.prems(3) g'
  have e: "map ?ch r @ CHR '']'' # ?flat g = map ?ch r' @ CHR '']'' # ?flat t" by simp
  have "CHR '']'' \<notin> set (map ?ch r)" and "CHR '']'' \<notin> set (map ?ch r')" by auto
  from split_first [OF this e] have m: "map ?ch r = map ?ch r'" and f: "?flat g = ?flat t"
    by simp_all
  from Cons.prems(1,2) g' m have "r = r'" by (intro bits_text_inj) auto
  moreover from Cons.prems(1,2) g' f have "g = t" by (intro Cons.IH) auto
  ultimately show ?case using g' by simp
qed

lemma stringify_grid_inj:
  assumes "\<forall>r \<in> set g. \<forall>v \<in> set r. v = 0 \<or> v = 1"
    and "\<forall>r \<in> set g'. \<forall>v \<in> set r. v = 0 \<or> v = 1"
    and "stringify_grid g = stringify_grid g'"
  shows "g = g'"
proof -
  from assms(3) have "filter (\<lambda>c. c \<noteq> CHR '','') (stringify_grid g)
      = filter (\<lambda>c. c \<noteq> CHR '','') (stringify_grid g')" by simp
  then have "concat (map (\<lambda>r. CHR ''['' # map (\<lambda>v. if v = 0 then CHR ''0'' else CHR ''1'') r @ '']'') g)
       = concat (map (\<lambda>r. CHR ''['' # map (\<lambda>v. if v = 0 then CHR ''0'' else CHR ''1'') r @ '']'') g')"
    by (simp add: grid_text)
  with assms(1,2) show ?thesis by (rule rows_text_inj)
qed

lemma normalise_bits: "\<forall>r \<in> set (normalise_rows rows). \<forall>v \<in> set r. v = 0 \<or> v = 1"
  by (auto simp: normalise_rows_def)

lemma build_parsed:
  "parse raw = Some md \<Longrightarrow>
     buildDefaultMap sha parse (Some raw) file
       = loadPrecomputedGrid sha file (Some (expected_of_map sha raw md))"
  by (simp add: buildDefaultMap_def)

lemma build_unparsed:
  "parse raw = None \<Longrightarrow>
     buildDefaultMap sha parse (Some raw) file = loadPrecomputedGrid sha file None"
  by (simp add: buildDefaultMap_def)

text \<open>
  Claim C8 (amended). When the map file parses, a sidecar is accepted only if its
  dimensions equal the map's, the tile sizes it states equal the map's, its \<open>mapHash\<close>
  equals the SHA-256 of the map file and, when it carries a \<open>gridHash\<close>, that hash equals
  the SHA-256 of the stringified grid of its cells normalised to zero and one.
  Consequently, for an accepted sidecar: when it carries a \<open>gridHash\<close>, every change of
  its grid that changes the normalised grid makes loading raise an error; and every
  change of the map file after which the file still parses makes loading raise an error.
  SHA-256 is taken as given: its hex digest is not empty, and it does not collide on the
  two texts compared.
\<close>

theorem sidecar_checked:
  "buildDefaultMap sha parse (Some raw) (Some data) = Inr (Some m) \<longrightarrow>
   parse raw = Some md \<longrightarrow> sha raw \<noteq> [] \<longrightarrow>
     (width m = md_width md \<and> height m = md_height md
      \<and> (\<forall>t. sc_tileWidth data = Some t \<longrightarrow> t = md_tilewidth md)
      \<and> (\<forall>t. sc_tileHeight data = Some t \<longrightarrow> t = md_tileheight md)
      \<and> sc_mapHash data = Some (sha raw)
      \<and> (truthy (sc_gridHash data) \<longrightarrow> sc_gridHash data = Some (sha (stringify_grid (grid m))))
      \<and> (\<exists>rows. sc_grid data = Some rows \<and> grid m = normalise_rows rows))
     \<and> (truthy (sc_gridHash data) \<longrightarrow> normalise_rows rows' \<noteq> grid m \<longrightarrow>
          collision_free sha (stringify_grid (normalise_rows rows')) (stringify_grid (grid m)) \<longrightarrow>
          (\<exists>err. buildDefaultMap sha parse (Some raw) (Some (data\<lparr>sc_grid := Some rows'\<rparr>)) = Inl err))
     \<and> (raw' \<noteq> raw \<longrightarrow> parse raw' = Some md' \<longrightarrow> sha raw' \<noteq> [] \<longrightarrow>
          collision_free sha raw' raw \<longrightarrow>
          (\<exists>err. buildDefaultMap sha parse (Some raw') (Some data) = Inl err))"
proof (intro impI)
  assume acc0: "buildDefaultMap sha parse (Some raw) (Some data) = Inr (Some m)"
    and md: "parse raw = Some md" and ne: "sha raw \<noteq> []"
  let ?ex = "expected_of_map sha raw md"
  from acc0 md have acc: "loadPrecomputedGrid sha (Some data) (Some ?ex) = Inr (Some m)"
    by (simp add: build_parsed)
  from load_accepted [OF acc] obtain row0 rest where
    g: "sc_grid data = Some (row0 # rest)"
    and ce: "check_expected (length (row_cells row0)) (length (row0 # rest)) data (Some ?ex) = None"
    and gh: "\<not> (truthy (sc_gridHash data)
                 \<and> sc_gridHash data \<noteq> Some (computeGridHash sha (normalise_rows (row0 # rest))))"
    and m: "grid m = normalise_rows (row0 # rest)"
      "width m = int (length (row_cells row0))" "height m = int (length (row0 # rest))"
    by blast
  note ex = check_expected_None [OF ce]
  have mh: "sc_mapHash data = Some (sha raw)"
    using ex ne by (simp add: expected_of_map_def)
  have 1: "width m = md_width md \<and> height m = md_height md
      \<and> (\<forall>t. sc_tileWidth data = Some t \<longrightarrow> t = md_tilewidth md)
      \<and> (\<forall>t. sc_tileHeight data = Some t \<longrightarrow> t = md_tileheight md)
      \<and> sc_mapHash data = Some (sha raw)
      \<and> (truthy (sc_gridHash data) \<longrightarrow> sc_gridHash data = Some (sha (stringify_grid (grid m))))
      \<and> (\<exists>rows. sc_grid data = Some rows \<and> grid m = normalise_rows rows)"
    using ex gh m g mh by (simp add: expected_of_map_def computeGridHash_def)
  have 2: "\<exists>err. buildDefaultMap sha parse (Some raw) (Some (data\<lparr>sc_grid := Some rows'\<rparr>)) = Inl err"
    if t: "truthy (sc_gridHash data)" and d: "normalise_rows rows' \<noteq> grid m"
      and cf: "collision_free sha (stringify_grid (normalise_rows rows')) (stringify_grid (grid m))"
  proof -
    have "stringify_grid (normalise_rows rows') \<noteq> stringify_grid (grid m)"
      using stringify_grid_inj [of "normalise_rows rows'" "grid m"] d m(1) normalise_bits
      by auto
    with cf have "computeGridHash sha (normalise_rows rows') \<noteq> computeGridHash sha (grid m)"
      by (simp add: collision_free_def computeGridHash_def)
    with t gh m(1)
    have "sc_gridHash (data\<lparr>sc_grid := Some rows'\<rparr>)
            \<noteq> Some (computeGridHash sha (normalise_rows rows'))"
      by auto
    moreover have "truthy (sc_gridHash (data\<lparr>sc_grid := Some rows'\<rparr>))" using t by simp
    moreover have "sc_grid (data\<lparr>sc_grid := Some rows'\<rparr>) = Some rows'" by simp
    ultimately have "\<exists>err. loadPrecomputedGrid sha (Some (data\<lparr>sc_grid := Some rows'\<rparr>)) (Some ?ex)
        = Inl err"
      by (intro grid_hash_checked [where rows = rows'])
    with md show ?thesis by (simp add: build_parsed)
  qed
  have 3: "\<exists>err. buildDefaultMap sha parse (Some raw') (Some data) = Inl err"
    if d: "raw' \<noteq> raw" and md': "parse raw' = Some md'" and ne': "sha raw' \<noteq> []"
      and cf: "collision_free sha raw' raw"
  proof -
    from d cf have "sha raw' \<noteq> sha raw" by (simp add: collision_free_def)
    with mh have "sc_mapHash data \<noteq> ex_mapHash (expected_of_map sha raw' md')"
      by (simp add: expected_of_map_def)
    moreover have "truthy (ex_mapHash (expected_of_map sha raw' md'))"
      using ne' by (simp add: expected_of_map_def)
    ultimately have "\<exists>err. loadPrecomputedGrid sha (Some data) (Some (expected_of_map sha raw' md'))
        = Inl err"
      by (intro map_hash_checked)
    with md' show ?thesis by (simp add: build_parsed)
  qed
  from 1 2 3 show "(width m = md_width md \<and> height m = md_height md
      \<and> (\<forall>t. sc_tileWidth data = Some t \<longrightarrow> t = md_tilewidth md)
      \<and> (\<forall>t. sc_tileHeight data = Some t \<longrightarrow> t = md_tileheight md)
      \<and> sc_mapHash data = Some (sha raw)
      \<and> (truthy (sc_gridHash data) \<longrightarrow> sc_gridHash data = Some (sha (stringify_grid (grid m))))
      \<and> (\<exists>rows. sc_grid data = Some rows \<and> grid m = normalise_rows rows))
     \<and> (truthy (sc_gridHash data) \<longrightarrow> normalise_rows rows' \<noteq> grid m \<longrightarrow>
          collision_free sha (stringify_grid (normalise_rows rows')) (stringify_grid (grid m)) \<longrightarrow>
          (\<exists>err. buildDefaultMap sha parse (Some raw) (Some (data\<lparr>sc_grid := Some rows'\<rparr>)) = Inl err))
     \<and> (raw' \<noteq> raw \<longrightarrow> parse raw' = Some md' \<longrightarrow> sha raw' \<noteq> [] \<longrightarrow>
          collision_free sha raw' raw \<longrightarrow>
          (\<exists>err. buildDefaultMap sha parse (Some raw') (Some data) = Inl err))"
    by blast
qed

lemma sample_accepted:
  "buildDefaultMap sample_sha sample_parse (Some ''{map}'') (Some sample_sidecar)
     = Inr (Some sample_grid)"
  by (simp add: buildDefaultMap_def sample_parse_def loadPrecomputedGrid_def sample_sidecar_def
        expected_of_map_def sample_grid_def
        sample_sha_def check_expected_def row_cells_def row_fits_def normalise_rows_def
        computeGridHash_def stringify_grid_def stringify_cell_def first_nonzero_def Let_def)

theorem sidecar_checked_witness:
  "sc_mapHash sample_sidecar = Some (sample_sha ''{map}'')
   \<and> sc_gridHash sample_sidecar = Some (sample_sha (stringify_grid (grid sample_grid)))
   \<and> (\<exists>err. buildDefaultMap sample_sha sample_parse (Some ''{map}'')
       (Some (sample_sidecar\<lparr>sc_grid := Some [JRow [1, 1], JRow [0, 0]]\<rparr>)) = Inl err)
   \<and> (\<exists>err. buildDefaultMap sample_sha sample_parse (Some ''{map }'') (Some sample_sidecar)
       = Inl err)"
  using sidecar_checked [of sample_sha sample_parse "''{map}''" sample_sidecar sample_grid
      "\<lparr> md_width = 2, md_height = 2, md_tilewidth = 32, md_tileheight = 32 \<rparr>"
      "[JRow [1, 1], JRow [0, 0]]" "''{map }''"
      "\<lparr> md_width = 2, md_height = 2, md_tilewidth = 32, md_tileheight = 32 \<rparr>"]
    sample_accepted
  by (simp add: sample_parse_def sample_sidecar_def sample_grid_def sample_sha_def
        normalise_rows_def row_cells_def collision_free_def stringify_grid_def
        stringify_cell_def)

text \<open>
  The claim as first stated fails in four ways. A sidecar without \<open>gridHash\<close> is accepted,
  and still accepted after a cell of its grid is changed. A sidecar with \<open>gridHash\<close> is
  still accepted after a cell is changed from 1 to 5, which is normalised to 1. A sidecar
  that states no tile sizes is accepted. And when the map file is changed so that it no
  longer parses, the sidecar is loaded without any check against the map.
\<close>

theorem unchecked_sidecar_counterexample:
  "buildDefaultMap sample_sha sample_parse (Some ''{map}'')
       (Some (sample_sidecar\<lparr>sc_gridHash := None\<rparr>))
     = Inr (Some sample_grid)
   \<and> buildDefaultMap sample_sha sample_parse (Some ''{map}'')
       (Some (sample_sidecar\<lparr>sc_gridHash := None, sc_grid := Some [JRow [1, 1], JRow [0, 0]]\<rparr>))
     = Inr (Some (sample_grid\<lparr>grid := [[1, 1], [0, 0]]\<rparr>))
   \<and> buildDefaultMap sample_sha sample_parse (Some ''{map}'') (Some sample_sidecar)
     = Inr (Some sample_grid)
   \<and> buildDefaultMap sample_sha sample_parse (Some ''{map}'')
       (Some (sample_sidecar\<lparr>sc_grid := Some [JRow [0, 5], JRow [0, 0]]\<rparr>))
     = Inr (Some sample_grid)
   \<and> buildDefaultMap sample_sha sample_parse (Some ''{map}'')
       (Some (sample_sidecar\<lparr>sc_tileWidth := None, sc_tileHeight := None\<rparr>))
     = Inr (Some sample_grid)
   \<and> sample_parse ''{map'' = None
   \<and> buildDefaultMap sample_sha sample_parse (Some ''{map'') (Some sample_sidecar)
     = Inr (Some sample_grid)"
  by (simp add: buildDefaultMap_def sample_parse_def loadPrecomputedGrid_def sample_sidecar_def
        expected_of_map_def sample_grid_def
        sample_sha_def check_expected_def row_cells_def row_fits_def normalise_rows_def
        computeGridHash_def stringify_grid_def stringify_cell_def first_nonzero_def Let_def)


section \<open>Path search\<close>

lemma walk_back_chain:
  assumes wb: "walk_back tb0 cf0 key0 acc0 = Some res0"
    and K: "\<forall>k \<in> K. tb0 k = Some k \<and> (\<forall>p. cf0 k = Some p \<longrightarrow> p \<in> K)"
    and key: "key0 \<in> K"
  shows "\<exists>rest. res0 = acc0 @ key0 # rest \<and> is_chain cf0 (key0 # rest) \<and> set (key0 # rest) \<subseteq> K"
proof -
  have "tb0 = tb0 \<longrightarrow> cf0 = cf0 \<longrightarrow> key0 \<in> K \<longrightarrow>
        (\<exists>rest. res0 = acc0 @ key0 # rest \<and> is_chain cf0 (key0 # rest) \<and> set (key0 # rest) \<subseteq> K)"
  proof (rule walk_back.raw_induct
      [where P = "\<lambda>tb cf key acc res. tb = tb0 \<longrightarrow> cf = cf0 \<longrightarrow> key \<in> K \<longrightarrow>
          (\<exists>rest. res = acc @ key # rest \<and> is_chain cf (key # rest) \<and> set (key # rest) \<subseteq> K)"],
      goal_cases)
    case (1 wb' tb cf key acc res)
    show ?case
    proof (intro impI)
      assume eq: "tb = tb0" "cf = cf0" and kK: "key \<in> K"
      with K have tb: "tb key = Some key" by blast
      show "\<exists>rest. res = acc @ key # rest \<and> is_chain cf (key # rest) \<and> set (key # rest) \<subseteq> K"
      proof (cases "cf key")
        case None
        with 1(2) tb have "res = acc @ [key]" by simp
        with None kK show ?thesis by simp
      next
        case (Some p)
        with 1(2) tb have w: "wb' tb cf p (acc @ [key]) = Some res" by simp
        from Some K kK eq have "p \<in> K" by blast
        with 1(1) [OF w] eq
        obtain rest where "res = (acc @ [key]) @ p # rest" "is_chain cf (p # rest)"
          "set (p # rest) \<subseteq> K" by blast
        with Some kK show ?thesis by auto
      qed
    qed
  next
    case 2
    show ?case by (rule wb)
  qed
  with key show ?thesis by simp
qed

lemma chain_props:
  "is_chain cf ks \<Longrightarrow> (\<forall>k p. cf k = Some p \<longrightarrow> adjacent p k \<and> isWalkable m k) \<Longrightarrow>
   cf (last ks) = None \<and> list_all (isWalkable m) (butlast ks)
   \<and> successively (\<lambda>k p. adjacent p k) ks"
  by (induction cf ks rule: is_chain.induct) auto

lemma fold_pick_mem:
  "fold pick os acc = Some node \<Longrightarrow> node \<in> set os \<or> acc = Some node"
proof (induction os arbitrary: acc)
  case Nil
  then show ?case by simp
next
  case (Cons a os)
  from Cons.IH [of "pick a acc"] Cons.prems
  have "node \<in> set os \<or> pick a acc = Some node" by simp
  then show ?case by (cases acc) (auto split: if_splits)
qed

lemma select_current_mem: "select_current os = Some node \<Longrightarrow> node \<in> set os"
  using fold_pick_mem [of os None node] by (simp add: select_current_def)

lemma adjacent_direction:
  "dir \<in> set directions \<Longrightarrow> adjacent current (fst current + fst dir, snd current + snd dir)"
  by (auto simp: directions_def adjacent_def)

lemma dom_update_keys: "fst ` set (AList.update k v al) = insert k (fst ` set al)"
  by (induction al) auto

lemma delete_keys: "fst ` set (AList.delete k al) \<subseteq> fst ` set al"
  by (induction al) auto

lemma inv_open:
  assumes "astar_inv m s st" and "k \<in> fst ` set (openSet st)"
  shows "tileByKey st k = Some k"
proof -
  from assms(1) have "\<forall>k \<in> fst ` set (openSet st). tileByKey st k = Some k"
    unfolding astar_inv_def by (elim conjE) assumption
  then show ?thesis using assms(2) by (rule bspec)
qed

lemma inv_known:
  assumes "astar_inv m s st" and "tileByKey st k = Some u"
  shows "u = k \<and> (k = s \<or> cameFrom st k \<noteq> None)"
proof -
  from assms(1)
  have "\<forall>k t. tileByKey st k = Some t \<longrightarrow> t = k \<and> (k = s \<or> cameFrom st k \<noteq> None)"
    unfolding astar_inv_def by (elim conjE) assumption
  from this [rule_format, OF assms(2)] show ?thesis .
qed

lemma inv_came:
  assumes "astar_inv m s st" and "cameFrom st k = Some p"
  shows "tileByKey st p = Some p \<and> tileByKey st k = Some k \<and> adjacent p k \<and> isWalkable m k"
proof -
  from assms(1)
  have "\<forall>k p. cameFrom st k = Some p \<longrightarrow>
             tileByKey st p = Some p \<and> tileByKey st k = Some k \<and> adjacent p k \<and> isWalkable m k"
    unfolding astar_inv_def by (elim conjE) assumption
  from this [rule_format, OF assms(2)] show ?thesis .
qed

lemma inv_start: "astar_inv m s st \<Longrightarrow> cameFrom st s = None"
  unfolding astar_inv_def by (elim conjE) assumption

lemma inv_closed:
  "astar_inv m s st \<Longrightarrow> s \<in> closedSet st \<or> fst ` set (openSet st) \<subseteq> {s}"
  unfolding astar_inv_def by (elim conjE) assumption

lemma visit_inv:
  assumes inv: "astar_inv m s st" and cur: "tileByKey st current = Some current"
    and closed: "s \<in> closedSet st" and dir: "dir \<in> set directions"
  shows "astar_inv m s (visit m t current dir st)
         \<and> tileByKey (visit m t current dir st) current = Some current
         \<and> s \<in> closedSet (visit m t current dir st)"
proof -
  define n where "n = (fst current + fst dir, snd current + snd dir)"
  define g where "g = (case gScore st current of Some g \<Rightarrow> g | None \<Rightarrow> \<infinity>) + 1"
  define st' where "st' = st\<lparr> cameFrom := (cameFrom st)(n \<mapsto> current),
                  gScore := (gScore st)(n \<mapsto> g),
                  tileByKey := (tileByKey st)(n \<mapsto> n),
                  openSet := AList.update n (g + enat (heuristic t n)) (openSet st) \<rparr>"
  have v: "visit m t current dir st = st \<or> (visit m t current dir st = st'
             \<and> n \<notin> closedSet st \<and> isWalkable m n)"
    unfolding visit_def Let_def n_def [symmetric] g_def [symmetric] st'_def [symmetric]
    by (simp split: option.splits)
  have step: "astar_inv m s st' \<and> tileByKey st' current = Some current \<and> s \<in> closedSet st'"
    if nc: "n \<notin> closedSet st" and w: "isWalkable m n"
  proof -
    from nc closed have ns: "n \<noteq> s" by blast
    have adj: "adjacent current n" unfolding n_def using dir by (rule adjacent_direction)
    have tb': "tileByKey st' k = (if k = n then Some n else tileByKey st k)" for k
      by (simp add: st'_def)
    have cf': "cameFrom st' k = (if k = n then Some current else cameFrom st k)" for k
      by (simp add: st'_def)
    have op': "fst ` set (openSet st') = insert n (fst ` set (openSet st))"
      by (simp add: st'_def dom_update_keys)
    have cl': "closedSet st' = closedSet st" by (simp add: st'_def)
    have a: "\<forall>k \<in> fst ` set (openSet st'). tileByKey st' k = Some k"
      using inv_open [OF inv] by (simp add: op' tb')
    have b: "\<forall>k u. tileByKey st' k = Some u \<longrightarrow> u = k \<and> (k = s \<or> cameFrom st' k \<noteq> None)"
    proof (intro allI impI)
      fix k u assume "tileByKey st' k = Some u"
      then show "u = k \<and> (k = s \<or> cameFrom st' k \<noteq> None)"
        using inv_known [OF inv, of k u] by (cases "k = n") (simp_all add: tb' cf')
    qed
    have c: "\<forall>k p. cameFrom st' k = Some p \<longrightarrow>
             tileByKey st' p = Some p \<and> tileByKey st' k = Some k \<and> adjacent p k \<and> isWalkable m k"
    proof (intro allI impI)
      fix k p assume kp: "cameFrom st' k = Some p"
      show "tileByKey st' p = Some p \<and> tileByKey st' k = Some k \<and> adjacent p k \<and> isWalkable m k"
      proof (cases "k = n")
        case True
        with kp have "p = current" by (simp add: cf')
        with True cur adj w show ?thesis by (simp add: tb')
      next
        case False
        with kp have "cameFrom st k = Some p" by (simp add: cf')
        from inv_came [OF inv this] False show ?thesis by (simp add: tb')
      qed
    qed
    have d: "cameFrom st' s = None"
      using inv_start [OF inv] ns by (simp add: cf')
    have e: "s \<in> closedSet st'" using closed by (simp add: cl')
    have f: "tileByKey st' current = Some current" using cur by (simp add: tb')
    have "astar_inv m s st'"
      unfolding astar_inv_def using a b c d e by (intro conjI disjI1)
    with e f show ?thesis by (intro conjI)
  qed
  from v show ?thesis
  proof
    assume "visit m t current dir st = st"
    with inv cur closed show ?thesis by simp
  next
    assume "visit m t current dir st = st' \<and> n \<notin> closedSet st \<and> isWalkable m n"
    with step show ?thesis by simp
  qed
qed

lemma fold_visit_inv:
  assumes "astar_inv m s st" and "tileByKey st current = Some current"
    and "s \<in> closedSet st" and "set ds \<subseteq> set directions"
  shows "astar_inv m s (fold (visit m t current) ds st)"
  using assms
proof (induction ds arbitrary: st)
  case Nil
  then show ?case by simp
next
  case (Cons d ds)
  from Cons.prems have "d \<in> set directions" by simp
  from visit_inv [OF Cons.prems(1-3) this, of t] Cons.prems(4)
  show ?case by (simp add: Cons.IH)
qed

lemma expand_inv:
  assumes inv: "astar_inv m s st" and cur: "current \<in> fst ` set (openSet st)"
  shows "astar_inv m s (expand m t current st)"
proof -
  define st0 where "st0 = st\<lparr> openSet := AList.delete current (openSet st),
                  closedSet := insert current (closedSet st) \<rparr>"
  have tb: "tileByKey st0 current = Some current"
    using inv_open [OF inv cur] by (simp add: st0_def)
  have cl: "s \<in> closedSet st0"
    using inv_closed [OF inv] cur by (auto simp: st0_def)
  have op: "fst ` set (openSet st0) \<subseteq> fst ` set (openSet st)"
    using delete_keys [of current "openSet st"] by (simp add: st0_def)
  have "astar_inv m s st0"
    unfolding astar_inv_def
  proof (intro conjI)
    show "\<forall>k \<in> fst ` set (openSet st0). tileByKey st0 k = Some k"
    proof
      fix k assume "k \<in> fst ` set (openSet st0)"
      with op have "k \<in> fst ` set (openSet st)" by (rule subsetD)
      from inv_open [OF inv this] show "tileByKey st0 k = Some k" by (simp add: st0_def)
    qed
    show "\<forall>k u. tileByKey st0 k = Some u \<longrightarrow> u = k \<and> (k = s \<or> cameFrom st0 k \<noteq> None)"
      using inv_known [OF inv] by (simp add: st0_def)
    show "\<forall>k p. cameFrom st0 k = Some p \<longrightarrow>
             tileByKey st0 p = Some p \<and> tileByKey st0 k = Some k \<and> adjacent p k \<and> isWalkable m k"
      using inv_came [OF inv] by (simp add: st0_def)
    show "cameFrom st0 s = None" using inv_start [OF inv] by (simp add: st0_def)
    show "s \<in> closedSet st0 \<or> fst ` set (openSet st0) \<subseteq> {s}" using cl by simp
  qed
  from fold_visit_inv [OF this tb cl, of directions t] show ?thesis
    by (simp add: expand_def st0_def)
qed

lemma initial_inv: "astar_inv m s (initial_state t s)"
  unfolding astar_inv_def initial_state_def by auto

lemma adjacent_sym: "adjacent a b = adjacent b a"
  by (auto simp: adjacent_def)

lemma route_of_chain:
  assumes inv: "astar_inv m s st" and ch: "is_chain (cameFrom st) (t # rest)"
    and known: "set (t # rest) \<subseteq> {k. tileByKey st k = Some k}"
  shows "good_route m s t (rev (t # rest))"
proof -
  from inv have good: "\<forall>k p. cameFrom st k = Some p \<longrightarrow> adjacent p k \<and> isWalkable m k"
    by (simp add: astar_inv_def)
  from chain_props [OF ch good]
  have l: "cameFrom st (last (t # rest)) = None"
    and w: "list_all (isWalkable m) (butlast (t # rest))"
    and a: "successively (\<lambda>k p. adjacent p k) (t # rest)" by simp_all
  from known have "tileByKey st (last (t # rest)) = Some (last (t # rest))"
    using last_in_set [of "t # rest"] by blast
  from inv_known [OF inv this] l have s: "last (t # rest) = s"
    by blast
  have "hd (rev (t # rest)) = s" using s hd_rev [of "t # rest"] by (simp del: rev.simps last.simps)
  moreover have "last (rev (t # rest)) = t" by simp
  moreover have "tl (rev (t # rest)) = rev (butlast (t # rest))"
    by (metis butlast_rev rev_swap)
  with w have "list_all (isWalkable m) (tl (rev (t # rest)))"
    by (simp add: list_all_iff)
  moreover have "successively adjacent (rev (t # rest))"
    using a successively_rev [of adjacent "t # rest"] by blast
  ultimately show ?thesis by (simp add: good_route_def)
qed

lemma astar_loop_sound:
  assumes run: "astar_loop m0 t0 st0 = Some res0" and inv0: "astar_inv m0 s st0"
  shows "case res0 of None \<Rightarrow> True | Some tiles \<Rightarrow> good_route m0 s t0 tiles"
proof -
  have "m0 = m0 \<longrightarrow> astar_inv m0 s st0 \<longrightarrow>
        (case res0 of None \<Rightarrow> True | Some tiles \<Rightarrow> good_route m0 s t0 tiles)"
  proof (rule astar_loop.raw_induct
      [where P = "\<lambda>m t st res. m = m0 \<longrightarrow> astar_inv m s st \<longrightarrow>
          (case res of None \<Rightarrow> True | Some tiles \<Rightarrow> good_route m s t tiles)"], goal_cases)
    case (1 loop m t st res)
    show ?case
    proof (intro impI)
      assume m: "m = m0" and inv: "astar_inv m s st"
      show "case res of None \<Rightarrow> True | Some tiles \<Rightarrow> good_route m s t tiles"
      proof (cases "select_current (openSet st)")
        case None
        with 1(2) show ?thesis by auto
      next
        case (Some node)
        then have "node \<in> set (openSet st)" by (rule select_current_mem)
        then have mem: "fst node \<in> fst ` set (openSet st)" by (rule imageI)
        show ?thesis
        proof (cases "fst node = t")
          case True
          with Some 1(2) obtain p where
            wb: "walk_back (tileByKey st) (cameFrom st) t [] = Some p" and res: "res = Some (rev p)"
            by auto
          let ?K = "{k. tileByKey st k = Some k}"
          have cl: "\<forall>k \<in> ?K. tileByKey st k = Some k \<and> (\<forall>q. cameFrom st k = Some q \<longrightarrow> q \<in> ?K)"
            using inv_came [OF inv] by blast
          have "t \<in> ?K" using inv_open [OF inv mem] True by simp
          from walk_back_chain [OF wb cl this]
          obtain rest where "p = t # rest" "is_chain (cameFrom st) (t # rest)"
            "set (t # rest) \<subseteq> ?K"
            by auto
          with route_of_chain [OF inv] res show ?thesis by simp
        next
          case False
          with Some 1(2) have "loop m t (expand m t (fst node) st) = Some res" by simp
          from 1(1) [OF this] m expand_inv [OF inv mem] show ?thesis by blast
        qed
      qed
    qed
  next
    case 2
    show ?case by (rule run)
  qed
  with inv0 show ?thesis by simp
qed

text \<open>
  The search always returns: every round closes a candidate tile that was not closed
  before, and the walk back from the target descends along strictly smaller scores.
\<close>

lemma finite_candidates: "finite (candidates m s)"
proof -
  have "{t. isWalkable m t} \<subseteq> {0..<width m} \<times> {0..<height m}"
    by (auto simp: isWalkable_def split: if_splits)
  then have "finite {t. isWalkable m t}"
    by (rule finite_subset) simp
  then show ?thesis by (simp add: candidates_def)
qed

lemma tinv_open:
  assumes "term_inv m s st" and "k \<in> fst ` set (openSet st)"
  shows "k \<notin> closedSet st \<and> k \<in> candidates m s"
proof -
  from assms(1) have "\<forall>k \<in> fst ` set (openSet st). k \<notin> closedSet st \<and> k \<in> candidates m s"
    unfolding term_inv_def by (elim conjE) assumption
  then show ?thesis using assms(2) by (rule bspec)
qed

lemma tinv_closed: "term_inv m s st \<Longrightarrow> closedSet st \<subseteq> candidates m s"
  unfolding term_inv_def by (elim conjE) assumption

lemma tinv_score:
  assumes "term_inv m s st" and "k \<in> fst ` set (openSet st) \<union> closedSet st"
  shows "\<exists>g. gScore st k = Some (enat g)"
proof -
  from assms(1)
  have "\<forall>k \<in> fst ` set (openSet st) \<union> closedSet st. \<exists>g. gScore st k = Some (enat g)"
    unfolding term_inv_def by (elim conjE) assumption
  then show ?thesis using assms(2) by (rule bspec)
qed

lemma tinv_came:
  assumes "term_inv m s st" and "cameFrom st k = Some p"
  shows "p \<in> closedSet st
         \<and> (\<exists>g. gScore st p = Some (enat g) \<and> gScore st k = Some (enat (Suc g)))"
proof -
  from assms(1)
  have "\<forall>k p. cameFrom st k = Some p \<longrightarrow>
            p \<in> closedSet st
            \<and> (\<exists>g. gScore st p = Some (enat g) \<and> gScore st k = Some (enat (Suc g)))"
    unfolding term_inv_def by (elim conjE) assumption
  from this [rule_format, OF assms(2)] show ?thesis .
qed

lemma delete_keys_eq: "fst ` set (AList.delete k al) = fst ` set al - {k}"
  by (induction al) auto

lemma visit_term:
  assumes inv: "term_inv m s st" and cur: "current \<in> closedSet st"
  shows "term_inv m s (visit m t current dir st)
         \<and> closedSet (visit m t current dir st) = closedSet st"
proof -
  define n where "n = (fst current + fst dir, snd current + snd dir)"
  define g where "g = (case gScore st current of Some g \<Rightarrow> g | None \<Rightarrow> \<infinity>) + 1"
  define st' where "st' = st\<lparr> cameFrom := (cameFrom st)(n \<mapsto> current),
                  gScore := (gScore st)(n \<mapsto> g),
                  tileByKey := (tileByKey st)(n \<mapsto> n),
                  openSet := AList.update n (g + enat (heuristic t n)) (openSet st) \<rparr>"
  have v: "visit m t current dir st = st \<or> (visit m t current dir st = st'
             \<and> n \<notin> closedSet st \<and> isWalkable m n)"
    unfolding visit_def Let_def n_def [symmetric] g_def [symmetric] st'_def [symmetric]
    by (simp split: option.splits)
  from tinv_score [OF inv, of current] cur
  obtain gc where gc: "gScore st current = Some (enat gc)" by blast
  then have g: "g = enat (Suc gc)"
    by (simp add: g_def one_enat_def)
  have step: "term_inv m s st'" if nc: "n \<notin> closedSet st" and w: "isWalkable m n"
  proof -
    have gs': "gScore st' k = (if k = n then Some (enat (Suc gc)) else gScore st k)" for k
      by (simp add: st'_def g)
    have cf': "cameFrom st' k = (if k = n then Some current else cameFrom st k)" for k
      by (simp add: st'_def)
    have op': "fst ` set (openSet st') = insert n (fst ` set (openSet st))"
      by (simp add: st'_def dom_update_keys)
    have cl': "closedSet st' = closedSet st" by (simp add: st'_def)
    from nc cur have ncur: "n \<noteq> current" by blast
    have a: "\<forall>k \<in> fst ` set (openSet st'). k \<notin> closedSet st' \<and> k \<in> candidates m s"
    proof
      fix k assume "k \<in> fst ` set (openSet st')"
      then have "k = n \<or> k \<in> fst ` set (openSet st)" by (simp add: op')
      then show "k \<notin> closedSet st' \<and> k \<in> candidates m s"
      proof
        assume "k = n"
        with nc w show ?thesis by (simp add: cl' candidates_def)
      next
        assume "k \<in> fst ` set (openSet st)"
        from tinv_open [OF inv this] show ?thesis by (simp add: cl')
      qed
    qed
    have b: "closedSet st' \<subseteq> candidates m s"
      using tinv_closed [OF inv] by (simp add: cl')
    have c: "\<forall>k \<in> fst ` set (openSet st') \<union> closedSet st'. \<exists>g. gScore st' k = Some (enat g)"
    proof
      fix k assume "k \<in> fst ` set (openSet st') \<union> closedSet st'"
      then have "k = n \<or> k \<in> fst ` set (openSet st) \<union> closedSet st"
        by (auto simp: op' cl')
      then show "\<exists>g. gScore st' k = Some (enat g)"
      proof
        assume "k = n"
        then show ?thesis by (simp add: gs')
      next
        assume "k \<in> fst ` set (openSet st) \<union> closedSet st"
        from tinv_score [OF inv this] show ?thesis by (simp add: gs')
      qed
    qed
    have d: "\<forall>k p. cameFrom st' k = Some p \<longrightarrow>
            p \<in> closedSet st'
            \<and> (\<exists>g. gScore st' p = Some (enat g) \<and> gScore st' k = Some (enat (Suc g)))"
    proof (intro allI impI)
      fix k p assume kp: "cameFrom st' k = Some p"
      show "p \<in> closedSet st'
            \<and> (\<exists>g. gScore st' p = Some (enat g) \<and> gScore st' k = Some (enat (Suc g)))"
      proof (cases "k = n")
        case True
        with kp have "p = current" by (simp add: cf')
        with True cur gc ncur show ?thesis by (simp add: cl' gs')
      next
        case False
        with kp have old: "cameFrom st k = Some p" by (simp add: cf')
        from tinv_came [OF inv old] obtain gp where
          p: "p \<in> closedSet st" "gScore st p = Some (enat gp)" "gScore st k = Some (enat (Suc gp))"
          by blast
        from p(1) nc have "p \<noteq> n" by blast
        with p False show ?thesis by (simp add: cl' gs')
      qed
    qed
    from a b c d show ?thesis unfolding term_inv_def by (intro conjI)
  qed
  from v show ?thesis
  proof
    assume "visit m t current dir st = st"
    with inv show ?thesis by simp
  next
    assume "visit m t current dir st = st' \<and> n \<notin> closedSet st \<and> isWalkable m n"
    with step show ?thesis by (simp add: st'_def)
  qed
qed

lemma fold_visit_term:
  assumes "term_inv m s st" and "current \<in> closedSet st"
  shows "term_inv m s (fold (visit m t current) ds st)
         \<and> closedSet (fold (visit m t current) ds st) = closedSet st"
  using assms
proof (induction ds arbitrary: st)
  case Nil
  then show ?case by simp
next
  case (Cons d ds)
  from visit_term [OF Cons.prems, of t d]
  have 1: "term_inv m s (visit m t current d st)"
    and 2: "closedSet (visit m t current d st) = closedSet st" by simp_all
  from 2 Cons.prems(2) have 3: "current \<in> closedSet (visit m t current d st)" by simp
  from Cons.IH [OF 1 3] 2 show ?case by simp
qed

lemma expand_term:
  assumes inv: "term_inv m s st" and cur: "current \<in> fst ` set (openSet st)"
  shows "term_inv m s (expand m t current st)
         \<and> closedSet (expand m t current st) = insert current (closedSet st)"
proof -
  define st0 where "st0 = st\<lparr> openSet := AList.delete current (openSet st),
                  closedSet := insert current (closedSet st) \<rparr>"
  have op: "fst ` set (openSet st0) = fst ` set (openSet st) - {current}"
    by (simp add: st0_def delete_keys_eq)
  have cl: "closedSet st0 = insert current (closedSet st)" by (simp add: st0_def)
  have gs: "gScore st0 = gScore st" and cf: "cameFrom st0 = cameFrom st"
    by (simp_all add: st0_def)
  have a: "\<forall>k \<in> fst ` set (openSet st0). k \<notin> closedSet st0 \<and> k \<in> candidates m s"
  proof
    fix k assume "k \<in> fst ` set (openSet st0)"
    then have k: "k \<in> fst ` set (openSet st)" "k \<noteq> current" by (simp_all add: op)
    from tinv_open [OF inv k(1)] k(2) show "k \<notin> closedSet st0 \<and> k \<in> candidates m s"
      by (simp add: cl)
  qed
  have b: "closedSet st0 \<subseteq> candidates m s"
    using tinv_closed [OF inv] tinv_open [OF inv cur] by (simp add: cl)
  have c: "\<forall>k \<in> fst ` set (openSet st0) \<union> closedSet st0. \<exists>g. gScore st0 k = Some (enat g)"
  proof
    fix k assume "k \<in> fst ` set (openSet st0) \<union> closedSet st0"
    with cur have "k \<in> fst ` set (openSet st) \<union> closedSet st" by (auto simp: op cl)
    from tinv_score [OF inv this] show "\<exists>g. gScore st0 k = Some (enat g)" by (simp add: gs)
  qed
  have d: "\<forall>k p. cameFrom st0 k = Some p \<longrightarrow>
            p \<in> closedSet st0
            \<and> (\<exists>g. gScore st0 p = Some (enat g) \<and> gScore st0 k = Some (enat (Suc g)))"
  proof (intro allI impI)
    fix k p assume "cameFrom st0 k = Some p"
    then have "cameFrom st k = Some p" by (simp add: cf)
    from tinv_came [OF inv this]
    show "p \<in> closedSet st0
            \<and> (\<exists>g. gScore st0 p = Some (enat g) \<and> gScore st0 k = Some (enat (Suc g)))"
      by (simp add: cl gs)
  qed
  from a b c d have i0: "term_inv m s st0" unfolding term_inv_def by (intro conjI)
  have c0: "current \<in> closedSet st0" by (simp add: cl)
  from fold_visit_term [OF i0 c0, of t directions] cl show ?thesis
    by (simp add: expand_def st0_def)
qed

lemma initial_term: "term_inv m s (initial_state t s)"
  unfolding term_inv_def initial_state_def
  by (simp add: candidates_def zero_enat_def)

lemma walk_back_returns:
  assumes inv: "term_inv m s st"
  shows "gScore st k = Some (enat g) \<Longrightarrow> \<exists>res. walk_back tb (cameFrom st) k acc = Some res"
proof (induction g arbitrary: k acc rule: less_induct)
  case (less g)
  show ?case
  proof (cases "cameFrom st k")
    case None
    then show ?thesis by (subst walk_back.simps) simp
  next
    case (Some p)
    from tinv_came [OF inv Some] obtain gp where
      p: "gScore st p = Some (enat gp)" "gScore st k = Some (enat (Suc gp))" by blast
    with less.prems have "gp < g" by simp
    from less.IH [OF this p(1)]
    obtain res where "walk_back tb (cameFrom st) p
        (case tb k of Some t \<Rightarrow> acc @ [t] | None \<Rightarrow> acc) = Some res" by blast
    with Some show ?thesis by (subst walk_back.simps) simp
  qed
qed

lemma astar_loop_returns:
  "term_inv m s st \<Longrightarrow> card (candidates m s - closedSet st) = n
     \<Longrightarrow> \<exists>res. astar_loop m t st = Some res"
proof (induction n arbitrary: st rule: less_induct)
  case (less n)
  show ?case
  proof (cases "select_current (openSet st)")
    case None
    then show ?thesis by (subst astar_loop.simps) simp
  next
    case (Some node)
    then have "node \<in> set (openSet st)"
      using fold_pick_mem [of "openSet st" None node] by (simp add: select_current_def)
    then have mem: "fst node \<in> fst ` set (openSet st)" by (rule imageI)
    show ?thesis
    proof (cases "fst node = t")
      case True
      from tinv_score [OF less.prems(1), of "fst node"] mem
      obtain g where "gScore st (fst node) = Some (enat g)" by blast
      from walk_back_returns [OF less.prems(1) this, of "tileByKey st" "[]"]
      obtain p where "walk_back (tileByKey st) (cameFrom st) (fst node) [] = Some p" by blast
      with Some True show ?thesis by (subst astar_loop.simps) simp
    next
      case False
      from expand_term [OF less.prems(1) mem, of t]
      have i: "term_inv m s (expand m t (fst node) st)"
        and c: "closedSet (expand m t (fst node) st) = insert (fst node) (closedSet st)"
        by simp_all
      from tinv_open [OF less.prems(1) mem]
      have "fst node \<in> candidates m s - closedSet st" by simp
      then have "card (candidates m s - insert (fst node) (closedSet st))
                   < card (candidates m s - closedSet st)"
        using finite_candidates [of m s]
        by (metis Diff_insert card_Diff1_less finite_Diff)
      with less.prems(2) c
      have "card (candidates m s - closedSet (expand m t (fst node) st)) < n" by simp
      from less.IH [OF this i refl]
      obtain res where "astar_loop m t (expand m t (fst node) st) = Some res" by blast
      with Some False show ?thesis by (subst astar_loop.simps) simp
    qed
  qed
qed

lemma findPath_returns: "\<exists>res. findPath m start target = Some res"
proof (cases "toTile m start = toTile m target")
  case True
  then show ?thesis by (simp add: findPath_def Let_def)
next
  case False
  from astar_loop_returns [OF initial_term refl]
  obtain res where
    "astar_loop m (toTile m target) (initial_state (toTile m target) (toTile m start)) = Some res"
    by blast
  with False show ?thesis by (simp add: findPath_def Let_def)
qed


lemma row_fits_length: "row_fits w r \<Longrightarrow> length (row_cells r) = w"
  by (cases r) (simp_all add: row_fits_def row_cells_def)

lemma normalise_rows_widths:
  "list_all (row_fits w) rows \<Longrightarrow> list_all (\<lambda>r. length r = w) (normalise_rows rows)"
  by (induction rows) (simp_all add: normalise_rows_def row_fits_length)

lemma loaded_map_wf:
  assumes "loadPrecomputedGrid sha (Some data) expected = Inr (Some m)"
  shows "wf_map m"
proof -
  from load_accepted [OF assms] obtain row0 rest where
    fits: "list_all (row_fits (length (row_cells row0))) (row0 # rest)"
    and m: "grid m = normalise_rows (row0 # rest)"
      "width m = int (length (row_cells row0))" "height m = int (length (row0 # rest))"
    by blast
  have "int (length (grid m)) = height m"
    using m by (simp add: normalise_rows_def)
  moreover from normalise_rows_widths [OF fits]
  have "list_all (\<lambda>r. int (length r) = width m) (grid m)"
    unfolding m(1) m(2) by (simp add: list_all_iff)
  ultimately show ?thesis by (simp add: wf_map_def)
qed

text \<open>
  Claim C7 (amended). For every well-formed walkable map with non-zero tile sizes and
  every pixel start and target, if \<open>findPath\<close> returns a path then every waypoint is the
  centre pixel of a tile; the tiles of consecutive waypoints are 4-neighbours; the first
  tile is the start tile (which is the target tile when both pixels fall in one tile);
  the last tile is the target tile; and every tile after the first is walkable. The
  start tile itself is not tested.
\<close>

theorem path_sound:
  "wf_map m \<longrightarrow> tileWidth m \<noteq> 0 \<longrightarrow> tileHeight m \<noteq> 0 \<longrightarrow>
   findPath m start target = Some (Some path) \<longrightarrow>
   (\<exists>tiles. path = map (toPixel m) tiles \<and> tiles \<noteq> []
      \<and> hd tiles = toTile m start \<and> last tiles = toTile m target
      \<and> list_all (isWalkable m) (tl tiles) \<and> successively adjacent tiles)"
proof (intro impI)
  assume fp: "findPath m start target = Some (Some path)"
  show "\<exists>tiles. path = map (toPixel m) tiles \<and> tiles \<noteq> []
      \<and> hd tiles = toTile m start \<and> last tiles = toTile m target
      \<and> list_all (isWalkable m) (tl tiles) \<and> successively adjacent tiles"
  proof (cases "toTile m start = toTile m target")
    case True
    with fp have "path = map (toPixel m) [toTile m target]"
      by (simp add: findPath_def Let_def)
    with True show ?thesis
      by (intro exI [of _ "[toTile m target]"]) simp
  next
    case False
    with fp obtain tiles where
      loop: "astar_loop m (toTile m target) (initial_state (toTile m target) (toTile m start))
               = Some (Some tiles)"
      and path: "path = map (toPixel m) tiles"
      by (auto simp: findPath_def Let_def)
    from astar_loop_sound [OF loop initial_inv]
    have "good_route m (toTile m start) (toTile m target) tiles" by simp
    with path show ?thesis by (auto simp: good_route_def)
  qed
qed


declare walk_back.simps [code]

declare astar_loop.simps [code]

theorem path_sound_witness:
  "findPath corridor (16, 16) (48, 48) = Some (Some [(16, 16), (48, 16), (48, 48)])
   \<and> (\<exists>tiles. [(16, 16), (48, 16), (48, 48)] = map (toPixel corridor) tiles \<and> tiles \<noteq> []
        \<and> hd tiles = toTile corridor (16, 16) \<and> last tiles = toTile corridor (48, 48)
        \<and> list_all (isWalkable corridor) (tl tiles) \<and> successively adjacent tiles)"
proof -
  have fp: "findPath corridor (16, 16) (48, 48) = Some (Some [(16, 16), (48, 16), (48, 48)])"
    by code_simp
  have wf: "wf_map corridor" "tileWidth corridor \<noteq> 0" "tileHeight corridor \<noteq> 0"
    by (simp_all add: wf_map_def corridor_def)
  from path_sound [of corridor "(16, 16)" "(48, 48)" "[(16, 16), (48, 16), (48, 48)]"] wf fp
  show ?thesis by blast
qed

text \<open>
  The claim as first stated asks every waypoint to lie on a walkable tile. From a start
  pixel on the blocked tile \<open>(0, 1)\<close> the returned path begins at the centre of that tile.
\<close>

theorem blocked_start_counterexample:
  "findPath corridor (16, 48) (48, 48) = Some (Some [(16, 48), (48, 48)])
   \<and> toTile corridor (16, 48) = (0, 1)
   \<and> toPixel corridor (0, 1) = (16, 48)
   \<and> \<not> isWalkable corridor (0, 1)"
  by code_simp

end
